theory Spec2Isabelle
  imports Main "HOL-Library.Sublist" "HOL-Library.AList"
begin

section \<open>Strings\<close>

text \<open>
  Python strings are modelled as \<open>string\<close>: lists of characters whose code points lie
  below 256 (Latin-1). On such text \<open>str.lower\<close>, \<open>str.upper\<close> and \<open>str.strip\<close> work
  character by character. \<open>lower\<close> and \<open>strip\<close> are Python's on every such character.
  \<open>upper\<close> is Python's on every such character but two: it maps the letters \<open>a\<close> to \<open>z\<close>
  and U+00E0 to U+00FE (U+00F7, the division sign, apart) to their capitals and U+00DF
  to \<open>SS\<close>; the capitals of U+00B5 and U+00FF lie beyond U+00FF, outside the character
  type, and the model leaves these two characters as they are.
\<close>

definition ascii_lowercase :: string where
  "ascii_lowercase = ''abcdefghijklmnopqrstuvwxyz''"

definition ascii_uppercase :: string where
  "ascii_uppercase = ''ABCDEFGHIJKLMNOPQRSTUVWXYZ''"

definition latin1_lowercase :: string where
  "latin1_lowercase = [
      CHR 0xE0, CHR 0xE1, CHR 0xE2, CHR 0xE3, CHR 0xE4, CHR 0xE5, CHR 0xE6, CHR 0xE7,
      CHR 0xE8, CHR 0xE9, CHR 0xEA, CHR 0xEB, CHR 0xEC, CHR 0xED, CHR 0xEE, CHR 0xEF,
      CHR 0xF0, CHR 0xF1, CHR 0xF2, CHR 0xF3, CHR 0xF4, CHR 0xF5, CHR 0xF6, CHR 0xF8,
      CHR 0xF9, CHR 0xFA, CHR 0xFB, CHR 0xFC, CHR 0xFD, CHR 0xFE]"

definition latin1_uppercase :: string where
  "latin1_uppercase = [
      CHR 0xC0, CHR 0xC1, CHR 0xC2, CHR 0xC3, CHR 0xC4, CHR 0xC5, CHR 0xC6, CHR 0xC7,
      CHR 0xC8, CHR 0xC9, CHR 0xCA, CHR 0xCB, CHR 0xCC, CHR 0xCD, CHR 0xCE, CHR 0xCF,
      CHR 0xD0, CHR 0xD1, CHR 0xD2, CHR 0xD3, CHR 0xD4, CHR 0xD5, CHR 0xD6, CHR 0xD8,
      CHR 0xD9, CHR 0xDA, CHR 0xDB, CHR 0xDC, CHR 0xDD, CHR 0xDE]"

definition upper_char :: "char \<Rightarrow> string" where
  "upper_char c =
     (if c = CHR 0xDF then ''SS''
      else (case map_of (zip (ascii_lowercase @ latin1_lowercase)
                              (ascii_uppercase @ latin1_uppercase)) c of
              Some u \<Rightarrow> [u]
            | None \<Rightarrow> [c]))"

definition lower_char :: "char \<Rightarrow> char" where
  "lower_char c =
     (case map_of (zip (ascii_uppercase @ latin1_uppercase)
                       (ascii_lowercase @ latin1_lowercase)) c of
        Some l \<Rightarrow> l
      | None \<Rightarrow> c)"

definition upper :: "string \<Rightarrow> string" where
  "upper s = concat (map upper_char s)"

definition lower :: "string \<Rightarrow> string" where
  "lower s = map lower_char s"

text \<open>The characters below U+0100 for which \<open>str.isspace\<close> holds; \<open>strip\<close> removes them
  at both ends.\<close>

definition is_space :: "char \<Rightarrow> bool" where
  "is_space c = (c \<in> set [CHR 0x20, CHR 0x09, CHR 0x0A, CHR 0x0B, CHR 0x0C, CHR 0x0D,
                           CHR 0x1C, CHR 0x1D, CHR 0x1E, CHR 0x1F, CHR 0x85, CHR 0xA0])"

definition strip :: "string \<Rightarrow> string" where
  "strip s = rev (dropWhile is_space (rev (dropWhile is_space s)))"

text \<open>\<open>sub in s\<close> on strings: \<open>sub\<close> occurs in \<open>s\<close> as a contiguous run.\<close>

fun str_contains :: "string \<Rightarrow> string \<Rightarrow> bool" where
  "str_contains [] sub = (sub = [])"
| "str_contains (c # cs) sub = (prefix sub (c # cs) \<or> str_contains cs sub)"

section \<open>person\_model.py\<close>

record Person =
  sno :: int
  name :: string
  gender :: string
  age :: int
  occupation :: string
  industry :: string
  nationality :: string

text \<open>
  \<open>__post_init__\<close>: the only processing the dataclass does when a Person is built.
  An empty string is falsy, so the conditional expression yields \<open>''\<close> for it.
\<close>

definition post_init :: "Person \<Rightarrow> Person" where
  "post_init self =
     (let self1 = self\<lparr>gender := (if gender self \<noteq> [] then upper (gender self) else [])\<rparr>
      in self1\<lparr>industry := (if industry self1 \<noteq> [] then upper (industry self1) else [])\<rparr>)"

text \<open>The generated constructor: store the seven fields, then run \<open>__post_init__\<close>.\<close>

definition new_Person ::
  "int \<Rightarrow> string \<Rightarrow> string \<Rightarrow> int \<Rightarrow> string \<Rightarrow> string \<Rightarrow> string \<Rightarrow> Person" where
  "new_Person s n g a occ ind natn =
     post_init \<lparr>sno = s, name = n, gender = g, age = a, occupation = occ,
                industry = ind, nationality = natn\<rparr>"

text \<open>
  A database row: the five text columns may be NULL (\<open>None\<close>); the two integer columns
  are taken at the type the dataclass declares. The expression
  \<open>x.strip() if x else ''\<close> is \<open>strip_or_empty\<close>.
\<close>

type_synonym row =
  "int \<times> string option \<times> string option \<times> int \<times> string option \<times> string option \<times> string option"

definition strip_or_empty :: "string option \<Rightarrow> string" where
  "strip_or_empty x = (case x of None \<Rightarrow> [] | Some s \<Rightarrow> (if s \<noteq> [] then strip s else []))"

fun from_tuple :: "row \<Rightarrow> Person" where
  "from_tuple (d0, d1, d2, d3, d4, d5, d6) =
     new_Person d0 (strip_or_empty d1) (strip_or_empty d2) d3
       (strip_or_empty d4) (strip_or_empty d5) (strip_or_empty d6)"

definition is_in_entertainment :: "Person \<Rightarrow> bool" where
  "is_in_entertainment self = (industry self \<in> set [''SPORTS'', ''MUSIC'', ''FILM''])"

definition plays_sport :: "Person \<Rightarrow> bool" where
  "plays_sport self = (industry self = ''SPORTS'')"

definition is_in_music :: "Person \<Rightarrow> bool" where
  "is_in_music self = (industry self = ''MUSIC'')"

definition is_in_film :: "Person \<Rightarrow> bool" where
  "is_in_film self = (industry self = ''FILM'')"

definition plays_tennis :: "Person \<Rightarrow> bool" where
  "plays_tennis self = str_contains (lower (occupation self)) ''tennis''"

definition ball_sports :: "string list" where
  "ball_sports = [''football'', ''basketball'', ''tennis'', ''cricket'', ''baseball'']"

definition plays_ball_sport :: "Person \<Rightarrow> bool" where
  "plays_ball_sport self =
     list_ex (\<lambda>sport. str_contains (lower (occupation self)) sport) ball_sports"

section \<open>The console\<close>

text \<open>
  The eight questions the engine can put, one per \<open>input\<close> prompt of
  \<open>game_engine.py\<close>; the nationality prompt carries the nationality it names.
\<close>

datatype question =
    AskGender
  | AskEntertainment
  | AskSports
  | AskTennis
  | AskBallSport
  | AskFilmVsMusic
  | AskNationality string
  | AskAge

text \<open>
  What the engine writes to the terminal, one event per message: the prompt of an
  \<open>input\<close> call, the complaint after an answer that is not allowed, and the messages of
  \<open>load_people\<close>, \<open>start_new_game\<close> and \<open>play_round\<close> with the values they interpolate.
\<close>

datatype event =
    Prompt question
  | PleaseEnter question
  | RemainingPossibilities int
  | Loaded int
  | LoadFailed
  | Welcome int int
  | RoundHeader int int int
  | Solved string int
  | NoMatch
  | OutOfQuestions "string list"

datatype error = EOFError | ValueError

record console =
  stdin :: "string list"
  stdout :: "event list"

definition print :: "event \<Rightarrow> console \<Rightarrow> console" where
  "print e c = c\<lparr>stdout := stdout c @ [e]\<rparr>"

text \<open>
  \<open>input(prompt)\<close> writes the prompt and reads one line; at the end of the input it
  raises \<open>EOFError\<close>.
\<close>

definition input :: "question \<Rightarrow> console \<Rightarrow> error + (string \<times> console)" where
  "input q c =
     (case stdin c of
        [] \<Rightarrow> Inl EOFError
      | l # ls \<Rightarrow> Inr (l, c\<lparr>stdin := ls, stdout := stdout c @ [Prompt q]\<rparr>))"

section \<open>game\_engine.py\<close>

record game =
  people :: "Person list"
  remaining_people :: "Person list"
  questions_asked :: int
  max_questions :: int

definition init_game :: game where
  "init_game = \<lparr>people = [], remaining_people = [], questions_asked = 0, max_questions = 20\<rparr>"

text \<open>The list comprehension \<open>[p for p in xs if P(p)]\<close>.\<close>

primrec filter_list :: "('a \<Rightarrow> bool) \<Rightarrow> 'a list \<Rightarrow> 'a list" where
  "filter_list P [] = []"
| "filter_list P (x # xs) = (if P x then x # filter_list P xs else filter_list P xs)"

text \<open>
  \<open>load_people\<close>: the database is the list of rows \<open>get_all_people\<close> returns, or \<open>None\<close>
  when the call raises; the exception handler then reports failure.
\<close>

definition load_people :: "row list option \<Rightarrow> game \<Rightarrow> console \<Rightarrow> bool \<times> game \<times> console" where
  "load_people db self c =
     (case db of
        None \<Rightarrow> (False, self, print LoadFailed c)
      | Some data \<Rightarrow>
          (let self1 = self\<lparr>people := map from_tuple data\<rparr>;
               self2 = self1\<lparr>remaining_people := people self1\<rparr>
           in (True, self2, print (Loaded (int (length (people self2)))) c)))"

definition start_new_game :: "row list option \<Rightarrow> game \<Rightarrow> console \<Rightarrow> bool \<times> game \<times> console" where
  "start_new_game db self c =
     (case load_people db self c of
        (ok, self1, c1) \<Rightarrow>
          if \<not> ok then (False, self1, c1)
          else (let self2 = self1\<lparr>questions_asked := 0\<rparr>
                in (True, self2,
                    print (Welcome (int (length (people self2))) (max_questions self2)) c1)))"

text \<open>
  Each \<open>while True\<close> loop reads answers until one is allowed. The loop is a recursive
  function on the console; it ends because every turn consumes a line of input.
\<close>

function ask_gender_question :: "game \<Rightarrow> console \<Rightarrow> error + (game \<times> console)" where
  "ask_gender_question self c =
     (case input AskGender c of
        Inl e \<Rightarrow> Inl e
      | Inr (line, c1) \<Rightarrow>
          (let answer = upper (strip line) in
           if answer \<in> set [''M'', ''F''] then
             (let self1 = self\<lparr>remaining_people :=
                                 filter_list (\<lambda>p. gender p = answer) (remaining_people self)\<rparr>;
                  self2 = self1\<lparr>questions_asked := questions_asked self1 + 1\<rparr>
              in Inr (self2,
                      print (RemainingPossibilities (int (length (remaining_people self2)))) c1))
           else ask_gender_question self (print (PleaseEnter AskGender) c1)))"
  by pat_completeness auto
termination
  by (relation "measure (\<lambda>(self, c). length (stdin c))")
     (auto simp: input_def print_def split: list.splits)

function ask_entertainment_question ::
  "game \<Rightarrow> console \<Rightarrow> error + (string \<times> game \<times> console)" where
  "ask_entertainment_question self c =
     (case input AskEntertainment c of
        Inl e \<Rightarrow> Inl e
      | Inr (line, c1) \<Rightarrow>
          (let answer = upper (strip line) in
           if answer \<in> set [''Y'', ''N''] then
             (let self1 = self\<lparr>questions_asked := questions_asked self + 1\<rparr> in
              if answer = ''Y'' then
                Inr (''entertainment'',
                     self1\<lparr>remaining_people :=
                             filter_list (\<lambda>p. is_in_entertainment p) (remaining_people self1)\<rparr>,
                     c1)
              else
                Inr (''other'',
                     self1\<lparr>remaining_people :=
                             filter_list (\<lambda>p. \<not> is_in_entertainment p) (remaining_people self1)\<rparr>,
                     c1))
           else ask_entertainment_question self (print (PleaseEnter AskEntertainment) c1)))"
  by pat_completeness auto
termination
  by (relation "measure (\<lambda>(self, c). length (stdin c))")
     (auto simp: input_def print_def split: list.splits)

text \<open>
  The other yes/no loops have one shape: count the question, keep the candidates
  satisfying one predicate on \<open>Y\<close> and those satisfying another on \<open>N\<close>. The loop of
  \<open>ask_sports_question\<close> is \<open>ask_sports_loop\<close>; \<open>ask_tennis_question\<close> and
  \<open>ask_ball_sport_question\<close> are the methods \<open>_ask_tennis_question\<close> and
  \<open>_ask_ball_sport_question\<close>.
\<close>

function ask_sports_loop :: "game \<Rightarrow> console \<Rightarrow> error + (game \<times> console)" where
  "ask_sports_loop self c =
     (case input AskSports c of
        Inl e \<Rightarrow> Inl e
      | Inr (line, c1) \<Rightarrow>
          (let answer = upper (strip line) in
           if answer \<in> set [''Y'', ''N''] then
             (let self1 = self\<lparr>questions_asked := questions_asked self + 1\<rparr> in
              if answer = ''Y'' then
                Inr (self1\<lparr>remaining_people :=
                             filter_list (\<lambda>p. plays_sport p) (remaining_people self1)\<rparr>, c1)
              else
                Inr (self1\<lparr>remaining_people :=
                             filter_list (\<lambda>p. \<not> plays_sport p) (remaining_people self1)\<rparr>, c1))
           else ask_sports_loop self (print (PleaseEnter AskSports) c1)))"
  by pat_completeness auto
termination
  by (relation "measure (\<lambda>(self, c). length (stdin c))")
     (auto simp: input_def print_def split: list.splits)

function ask_tennis_question :: "game \<Rightarrow> console \<Rightarrow> error + (game \<times> console)" where
  "ask_tennis_question self c =
     (case input AskTennis c of
        Inl e \<Rightarrow> Inl e
      | Inr (line, c1) \<Rightarrow>
          (let answer = upper (strip line) in
           if answer \<in> set [''Y'', ''N''] then
             (let self1 = self\<lparr>questions_asked := questions_asked self + 1\<rparr> in
              if answer = ''Y'' then
                Inr (self1\<lparr>remaining_people :=
                             filter_list (\<lambda>p. plays_tennis p) (remaining_people self1)\<rparr>, c1)
              else
                Inr (self1\<lparr>remaining_people :=
                             filter_list (\<lambda>p. \<not> plays_tennis p) (remaining_people self1)\<rparr>, c1))
           else ask_tennis_question self (print (PleaseEnter AskTennis) c1)))"
  by pat_completeness auto
termination
  by (relation "measure (\<lambda>(self, c). length (stdin c))")
     (auto simp: input_def print_def split: list.splits)

function ask_ball_sport_question :: "game \<Rightarrow> console \<Rightarrow> error + (game \<times> console)" where
  "ask_ball_sport_question self c =
     (case input AskBallSport c of
        Inl e \<Rightarrow> Inl e
      | Inr (line, c1) \<Rightarrow>
          (let answer = upper (strip line) in
           if answer \<in> set [''Y'', ''N''] then
             (let self1 = self\<lparr>questions_asked := questions_asked self + 1\<rparr> in
              if answer = ''Y'' then
                Inr (self1\<lparr>remaining_people :=
                             filter_list (\<lambda>p. plays_ball_sport p) (remaining_people self1)\<rparr>, c1)
              else
                Inr (self1\<lparr>remaining_people :=
                             filter_list (\<lambda>p. \<not> plays_ball_sport p) (remaining_people self1)\<rparr>,
                     c1))
           else ask_ball_sport_question self (print (PleaseEnter AskBallSport) c1)))"
  by pat_completeness auto
termination
  by (relation "measure (\<lambda>(self, c). length (stdin c))")
     (auto simp: input_def print_def split: list.splits)

text \<open>
  \<open>ask_sports_question\<close>: the guard, the plays-sports loop, then the two follow-up
  \<open>if\<close> statements, each with its own test of the candidates that remain at that point.
\<close>

definition tennis_followup :: "game \<Rightarrow> console \<Rightarrow> error + (game \<times> console)" where
  "tennis_followup self c =
     (if length (remaining_people self) > 3 \<and> list_ex plays_tennis (remaining_people self)
      then ask_tennis_question self c else Inr (self, c))"

definition ball_sport_followup :: "game \<Rightarrow> console \<Rightarrow> error + (game \<times> console)" where
  "ball_sport_followup self c =
     (if length (remaining_people self) > 3 \<and> list_ex plays_ball_sport (remaining_people self)
      then ask_ball_sport_question self c else Inr (self, c))"

definition ask_sports_question :: "game \<Rightarrow> console \<Rightarrow> error + (game \<times> console)" where
  "ask_sports_question self c =
     (if \<not> list_ex plays_sport (remaining_people self) then Inr (self, c)
      else
        (case ask_sports_loop self c of
           Inl e \<Rightarrow> Inl e
         | Inr (self1, c1) \<Rightarrow>
             (case tennis_followup self1 c1 of
                Inl e \<Rightarrow> Inl e
              | Inr (self2, c2) \<Rightarrow> ball_sport_followup self2 c2)))"

function ask_film_vs_music_question :: "game \<Rightarrow> console \<Rightarrow> error + (game \<times> console)" where
  "ask_film_vs_music_question self c =
     (case input AskFilmVsMusic c of
        Inl e \<Rightarrow> Inl e
      | Inr (line, c1) \<Rightarrow>
          (let answer = upper (strip line) in
           if answer \<in> set [''Y'', ''N''] then
             (let self1 = self\<lparr>questions_asked := questions_asked self + 1\<rparr> in
              if answer = ''Y'' then
                Inr (self1\<lparr>remaining_people :=
                             filter_list (\<lambda>p. is_in_film p) (remaining_people self1)\<rparr>, c1)
              else
                Inr (self1\<lparr>remaining_people :=
                             filter_list (\<lambda>p. is_in_music p) (remaining_people self1)\<rparr>, c1))
           else ask_film_vs_music_question self (print (PleaseEnter AskFilmVsMusic) c1)))"
  by pat_completeness auto
termination
  by (relation "measure (\<lambda>(self, c). length (stdin c))")
     (auto simp: input_def print_def split: list.splits)

subsection \<open>The nationality question\<close>

text \<open>
  The dictionary \<open>nationalities\<close> is an association list in insertion order, which is
  the order Python iterates a \<open>dict\<close> in: \<open>AList.update\<close> overwrites a key where it stands
  and puts a new key at the end.
\<close>

definition dict_get :: "(string \<times> int) list \<Rightarrow> string \<Rightarrow> int \<Rightarrow> int" where
  "dict_get d k dflt = (case map_of d k of None \<Rightarrow> dflt | Some v \<Rightarrow> v)"

text \<open>
  \<open>d[k]\<close> is read only for keys taken from \<open>d.keys()\<close>, where it cannot raise; the model
  leaves its value at any other key unspecified.
\<close>

definition dict_item :: "(string \<times> int) list \<Rightarrow> string \<Rightarrow> int" where
  "dict_item d k = the (map_of d k)"

definition count_nationalities :: "Person list \<Rightarrow> (string \<times> int) list" where
  "count_nationalities ps =
     fold (\<lambda>person d. let natn = nationality person
                        in AList.update natn (dict_get d natn 0 + 1) d) ps []"

text \<open>
  \<open>max(xs, key=f)\<close>: \<open>ValueError\<close> on an empty sequence; otherwise one pass that replaces
  the current best only by a strictly greater element, so the first maximum wins.
\<close>

definition py_max :: "('a \<Rightarrow> int) \<Rightarrow> 'a list \<Rightarrow> error + 'a" where
  "py_max key xs =
     (case xs of
        [] \<Rightarrow> Inl ValueError
      | x # rest \<Rightarrow> Inr (fold (\<lambda>y best. if key best < key y then y else best) rest x))"

definition most_common :: "Person list \<Rightarrow> error + string" where
  "most_common ps =
     (let nationalities = count_nationalities ps
      in py_max (\<lambda>x. dict_item nationalities x) (map fst nationalities))"

function ask_nationality_loop :: "string \<Rightarrow> game \<Rightarrow> console \<Rightarrow> error + (game \<times> console)" where
  "ask_nationality_loop mc self c =
     (case input (AskNationality mc) c of
        Inl e \<Rightarrow> Inl e
      | Inr (line, c1) \<Rightarrow>
          (let answer = upper (strip line) in
           if answer \<in> set [''Y'', ''N''] then
             (let self1 = self\<lparr>questions_asked := questions_asked self + 1\<rparr> in
              if answer = ''Y'' then
                Inr (self1\<lparr>remaining_people :=
                             filter_list (\<lambda>p. nationality p = mc) (remaining_people self1)\<rparr>, c1)
              else
                Inr (self1\<lparr>remaining_people :=
                             filter_list (\<lambda>p. nationality p \<noteq> mc) (remaining_people self1)\<rparr>, c1))
           else ask_nationality_loop mc self (print (PleaseEnter (AskNationality mc)) c1)))"
  by pat_completeness auto
termination
  by (relation "measure (\<lambda>(mc, self, c). length (stdin c))")
     (auto simp: input_def print_def split: list.splits)

definition ask_nationality_question :: "game \<Rightarrow> console \<Rightarrow> error + (game \<times> console)" where
  "ask_nationality_question self c =
     (if length (remaining_people self) \<le> 2 then Inr (self, c)
      else
        (case most_common (remaining_people self) of
           Inl e \<Rightarrow> Inl e
         | Inr mc \<Rightarrow>
             (if dict_item (count_nationalities (remaining_people self)) mc > 1
              then ask_nationality_loop mc self c
              else Inr (self, c))))"

subsection \<open>The age question\<close>

function ask_age_loop :: "game \<Rightarrow> console \<Rightarrow> error + (game \<times> console)" where
  "ask_age_loop self c =
     (case input AskAge c of
        Inl e \<Rightarrow> Inl e
      | Inr (line, c1) \<Rightarrow>
          (let answer = upper (strip line) in
           if answer \<in> set [''Y'', ''N''] then
             (let self1 = self\<lparr>questions_asked := questions_asked self + 1\<rparr> in
              if answer = ''Y'' then
                Inr (self1\<lparr>remaining_people :=
                             filter_list (\<lambda>p. age p > 40) (remaining_people self1)\<rparr>, c1)
              else
                Inr (self1\<lparr>remaining_people :=
                             filter_list (\<lambda>p. age p \<le> 40) (remaining_people self1)\<rparr>, c1))
           else ask_age_loop self (print (PleaseEnter AskAge) c1)))"
  by pat_completeness auto
termination
  by (relation "measure (\<lambda>(self, c). length (stdin c))")
     (auto simp: input_def print_def split: list.splits)

definition ask_age_question :: "game \<Rightarrow> console \<Rightarrow> error + (game \<times> console)" where
  "ask_age_question self c =
     (if length (remaining_people self) \<le> 2 then Inr (self, c) else ask_age_loop self c)"

subsection \<open>Rounds\<close>

text \<open>
  The question stage of \<open>play_round\<close>, after the three terminal checks: the branch on
  the number of remaining candidates.
\<close>

definition ask_by_size :: "game \<Rightarrow> console \<Rightarrow> error + (game \<times> console)" where
  "ask_by_size self c =
     (if length (remaining_people self) > 20 then ask_gender_question self c
      else if length (remaining_people self) > 10 then
        (case ask_entertainment_question self c of
           Inl e \<Rightarrow> Inl e
         | Inr (industry_type, self1, c1) \<Rightarrow>
             (if industry_type = ''entertainment'' then
                (if list_ex plays_sport (remaining_people self1)
                 then ask_sports_question self1 c1
                 else ask_film_vs_music_question self1 c1)
              else Inr (self1, c1)))
      else if length (remaining_people self) > 5 then ask_nationality_question self c
      else ask_age_question self c)"

definition play_round :: "game \<Rightarrow> console \<Rightarrow> error + (bool \<times> game \<times> console)" where
  "play_round self c =
     (if length (remaining_people self) = 1 then
        Inr (False, self,
             print (Solved (name (remaining_people self ! 0)) (questions_asked self)) c)
      else if length (remaining_people self) = 0 then
        Inr (False, self, print NoMatch c)
      else if questions_asked self \<ge> max_questions self then
        Inr (False, self, print (OutOfQuestions (map name (remaining_people self))) c)
      else
        (case ask_by_size self
                (print (RoundHeader (questions_asked self + 1) (max_questions self)
                          (int (length (remaining_people self)))) c) of
           Inl e \<Rightarrow> Inl e
         | Inr (self1, c1) \<Rightarrow> Inr (True, self1, c1)))"

text \<open>
  \<open>while self.play_round(): continue\<close>. Nothing bounds the number of rounds, so the loop
  takes fuel: \<open>None\<close> means that the rounds allowed were not enough.
\<close>

fun play_rounds :: "nat \<Rightarrow> game \<Rightarrow> console \<Rightarrow> (error + (game \<times> console)) option" where
  "play_rounds 0 self c = None"
| "play_rounds (Suc n) self c =
     (case play_round self c of
        Inl e \<Rightarrow> Some (Inl e)
      | Inr (continue, self1, c1) \<Rightarrow>
          (if continue then play_rounds n self1 c1 else Some (Inr (self1, c1))))"

section \<open>Notions used in the statements\<close>

text \<open>What was written to the terminal between two states of the console.\<close>

definition emitted :: "console \<Rightarrow> console \<Rightarrow> event list" where
  "emitted c c' = drop (length (stdout c)) (stdout c')"

text \<open>
  One answered question: the counter went up by one, the candidates that remain are a
  subsequence of the former ones, the catalogue and the budget are untouched, input was
  only consumed, and the terminal shows the prompt of that question, repeated after each
  complaint.
\<close>

definition answered :: "question \<Rightarrow> game \<Rightarrow> console \<Rightarrow> game \<Rightarrow> console \<Rightarrow> bool" where
  "answered q g c g' c' \<longleftrightarrow>
     people g' = people g \<and> max_questions g' = max_questions g \<and>
     questions_asked g' = questions_asked g + 1 \<and>
     subseq (remaining_people g') (remaining_people g) \<and>
     suffix (stdin c') (stdin c) \<and>
     (\<exists>es. stdout c' = stdout c @ Prompt q # es \<and>
           set es \<subseteq> insert (Prompt q) (insert (PleaseEnter q) (range RemainingPossibilities)))"

text \<open>Any number of answered questions, none included.\<close>

definition advanced :: "game \<Rightarrow> console \<Rightarrow> game \<Rightarrow> console \<Rightarrow> bool" where
  "advanced g c g' c' \<longleftrightarrow>
     people g' = people g \<and> max_questions g' = max_questions g \<and>
     questions_asked g \<le> questions_asked g' \<and>
     subseq (remaining_people g') (remaining_people g) \<and>
     suffix (stdin c') (stdin c) \<and>
     prefix (stdout c) (stdout c')"

section \<open>Sample data\<close>

text \<open>Rows of \<open>DataLoader.get_sample_data\<close>, as the database returns them.\<close>

definition federer :: row where
  "federer = (3, Some ''Roger Federer'', Some ''M'', 42, Some ''Tennis'', Some ''SPORTS'',
              Some ''Switzerland'')"

definition nadal :: row where
  "nadal = (4, Some ''Rafael Nadal'', Some ''M'', 37, Some ''Tennis'', Some ''SPORTS'',
            Some ''Spain'')"

definition serena :: row where
  "serena = (7, Some ''Serena Williams'', Some ''F'', 41, Some ''Tennis'', Some ''SPORTS'',
             Some ''USA'')"

definition venus :: row where
  "venus = (8, Some ''Venus Williams'', Some ''F'', 43, Some ''Tennis'', Some ''SPORTS'',
            Some ''USA'')"

definition biles :: row where
  "biles = (9, Some ''Simone Biles'', Some ''F'', 26, Some ''Gymnastics'', Some ''SPORTS'',
            Some ''USA'')"

definition kohli :: row where
  "kohli = (15, Some ''Virat Kohli'', Some ''M'', 34, Some ''Cricket'', Some ''SPORTS'',
            Some ''India'')"

definition swift :: row where
  "swift = (36, Some ''Taylor Swift'', Some ''F'', 34, Some ''Singer'', Some ''MUSIC'',
            Some ''USA'')"

text \<open>A game on the given rows, as \<open>start_new_game\<close> leaves it, and a console holding the
  given lines of input.\<close>

definition game_on :: "row list \<Rightarrow> game" where
  "game_on rows = fst (snd (start_new_game (Some rows) init_game \<lparr>stdin = [], stdout = []\<rparr>))"

definition typing :: "string list \<Rightarrow> console" where
  "typing ls = \<lparr>stdin = ls, stdout = []\<rparr>"

text \<open>The console after one line was read at the prompt of a question and rejected.\<close>

definition rejected :: "question \<Rightarrow> console \<Rightarrow> console" where
  "rejected q c = c\<lparr>stdin := tl (stdin c), stdout := stdout c @ [Prompt q, PleaseEnter q]\<rparr>"

definition tennis_five :: "row list" where
  "tennis_five = [federer, nadal, serena, venus, biles]"

definition three_players :: "row list" where
  "three_players = [federer, nadal, serena]"

definition tendulkar :: row where
  "tendulkar = (16, Some ''Sachin Tendulkar'', Some ''M'', 50, Some ''Cricket'', Some ''SPORTS'',
                Some ''India'')"

text \<open>Two nationalities occur twice each; India is met first.\<close>

definition tied_four :: "row list" where
  "tied_four = [kohli, serena, venus, tendulkar]"

definition six_players :: "row list" where
  "six_players = [kohli, serena, venus, tendulkar, federer, nadal]"

text \<open>The header \<open>play_round\<close> prints before its question stage.\<close>

definition round_header :: "game \<Rightarrow> event" where
  "round_header g =
     RoundHeader (questions_asked g + 1) (max_questions g) (int (length (remaining_people g)))"

text \<open>A catalogue of \<open>n\<close> chess players, numbered from 1, and one of a tennis player.\<close>

definition chess_club :: "nat \<Rightarrow> row list" where
  "chess_club n =
     map (\<lambda>i. (int i, Some ''Chess Player'', Some ''M'', 30, Some ''Chess'', Some ''SPORTS'',
                Some ''Norway'')) [1..<Suc n]"

definition tennis_member :: row where
  "tennis_member = (12, Some ''Tennis Player'', Some ''M'', 30, Some ''Tennis'', Some ''SPORTS'',
                    Some ''Norway'')"

text \<open>Eleven chess players and a tennis player; the answers: in entertainment, plays
  sports, no tennis, and then nine more times in entertainment, plays sports.\<close>

definition mixed_club :: "row list" where
  "mixed_club = chess_club 11 @ [tennis_member]"

definition mixed_club_answers :: "string list" where
  "mixed_club_answers = [''y'', ''y'', ''n''] @ replicate 18 ''y''"

text \<open>A row whose gender, industry and age are outside the values the sample data uses.\<close>

definition wizard :: row where
  "wizard = (51, Some ''Merlin'', Some ''X'', - 5, Some ''Wizard'', Some ''MAGIC'', Some ''Wales'')"

definition messi :: row where
  "messi = (1, Some ''Lionel Messi'', Some ''M'', 36, Some ''Football'', Some ''SPORTS'',
            Some ''Argentina'')"

definition carlsen :: row where
  "carlsen = (13, Some ''Magnus Carlsen'', Some ''M'', 32, Some ''Chess'', Some ''SPORTS'',
              Some ''Norway'')"

text \<open>Six candidates of six nationalities.\<close>

definition six_nations :: "row list" where
  "six_nations = [messi, federer, nadal, serena, carlsen, kohli]"

text \<open>
  The two situations in which the question stage of a round puts no question: exactly
  two candidates, and six to ten candidates no two of whom share a nationality.
\<close>

definition asks_nothing :: "game \<Rightarrow> bool" where
  "asks_nothing g \<longleftrightarrow>
     length (remaining_people g) = 2
     \<or> (5 < length (remaining_people g) \<and> length (remaining_people g) \<le> 10
        \<and> (\<forall>n \<in> set (map nationality (remaining_people g)).
              count_list (map nationality (remaining_people g)) n \<le> 1))"

text \<open>The question a round puts first, by the number of candidates.\<close>

definition first_question :: "game \<Rightarrow> question \<Rightarrow> bool" where
  "first_question g q \<longleftrightarrow>
     (if length (remaining_people g) > 20 then q = AskGender
      else if length (remaining_people g) > 10 then q = AskEntertainment
      else if length (remaining_people g) > 5 then
        (case most_common (remaining_people g) of
           Inl e \<Rightarrow> False
         | Inr mc \<Rightarrow> q = AskNationality mc)
      else q = AskAge)"

section \<open>The answer loops\<close>

lemma filter_list_eq: "filter_list P xs = filter P xs"
  by (induction xs) simp_all

lemma answered_now:
  assumes "stdin c = l # ls"
    and "Inr (g\<lparr>remaining_people := filter_list P (remaining_people g),
                questions_asked := questions_asked g + 1\<rparr>,
              c\<lparr>stdin := ls, stdout := stdout c @ [Prompt q]\<rparr>) = Inr (g', c')"
  shows "answered q g c g' c'"
  using assms unfolding answered_def
  by (auto simp: filter_list_eq suffix_Cons)

lemma answered_later:
  assumes "answered q g (c\<lparr>stdin := ls, stdout := stdout c @ [Prompt q, PleaseEnter q]\<rparr>) g' c'"
    and "stdin c = l # ls"
  shows "answered q g c g' c'"
  using assms unfolding answered_def
  by (auto simp: suffix_Cons)

declare ask_sports_loop.simps [simp del]

lemma ask_sports_loop_eof: "stdin c = [] \<Longrightarrow> ask_sports_loop g c = Inl EOFError"
  by (simp add: ask_sports_loop.simps [of g c] input_def)

lemma ask_sports_loop_yes:
  "stdin c = l # ls \<Longrightarrow> upper (strip l) = ''Y'' \<Longrightarrow>
   ask_sports_loop g c =
     Inr (g\<lparr>remaining_people := filter_list (\<lambda>p. plays_sport p) (remaining_people g),
            questions_asked := questions_asked g + 1\<rparr>,
          c\<lparr>stdin := ls, stdout := stdout c @ [Prompt AskSports]\<rparr>)"
  by (simp add: ask_sports_loop.simps [of g c] input_def)

lemma ask_sports_loop_no:
  "stdin c = l # ls \<Longrightarrow> upper (strip l) = ''N'' \<Longrightarrow>
   ask_sports_loop g c =
     Inr (g\<lparr>remaining_people := filter_list (\<lambda>p. \<not> plays_sport p) (remaining_people g),
            questions_asked := questions_asked g + 1\<rparr>,
          c\<lparr>stdin := ls, stdout := stdout c @ [Prompt AskSports]\<rparr>)"
  by (simp add: ask_sports_loop.simps [of g c] input_def)

lemma ask_sports_loop_invalid:
  "stdin c = l # ls \<Longrightarrow> upper (strip l) \<notin> set [''Y'', ''N''] \<Longrightarrow>
   ask_sports_loop g c =
     ask_sports_loop g (c\<lparr>stdin := ls, stdout := stdout c @ [Prompt AskSports, PleaseEnter AskSports]\<rparr>)"
  by (simp add: ask_sports_loop.simps [of g c] input_def print_def)

lemma ask_sports_loop_answered:
  "ask_sports_loop g c = Inr (g', c') \<Longrightarrow> answered AskSports g c g' c'"
proof (induction "stdin c" arbitrary: c)
  case Nil
  then show ?case by (simp add: ask_sports_loop_eof)
next
  case (Cons l ls)
  let ?c = "c\<lparr>stdin := ls, stdout := stdout c @ [Prompt AskSports, PleaseEnter AskSports]\<rparr>"
  have c: "stdin c = l # ls" using Cons.hyps(2) by simp
  consider "upper (strip l) = ''Y''" | "upper (strip l) = ''N''"
    | "upper (strip l) \<notin> set [''Y'', ''N'']" by auto
  then show ?case
  proof cases
    case 1
    from Cons.prems [unfolded ask_sports_loop_yes [OF c 1]] show ?thesis
      by (rule answered_now [OF c])
  next
    case 2
    from Cons.prems [unfolded ask_sports_loop_no [OF c 2]] show ?thesis
      by (rule answered_now [OF c])
  next
    case 3
    from Cons.prems [unfolded ask_sports_loop_invalid [OF c 3]]
    have "ask_sports_loop g ?c = Inr (g', c')" .
    moreover have "ls = stdin ?c" by simp
    ultimately have "answered AskSports g ?c g' c'" by (rule Cons.hyps(1) [rotated])
    then show ?thesis using c by (rule answered_later)
  qed
qed

lemma ask_sports_loop_error: "ask_sports_loop g c = Inl e \<Longrightarrow> e = EOFError"
proof (induction "stdin c" arbitrary: c)
  case Nil
  then show ?case by (simp add: ask_sports_loop_eof)
next
  case (Cons l ls)
  let ?c = "c\<lparr>stdin := ls, stdout := stdout c @ [Prompt AskSports, PleaseEnter AskSports]\<rparr>"
  have c: "stdin c = l # ls" using Cons.hyps(2) by simp
  consider "upper (strip l) = ''Y''" | "upper (strip l) = ''N''"
    | "upper (strip l) \<notin> set [''Y'', ''N'']" by auto
  then show ?case
  proof cases
    case 1
    from Cons.prems [unfolded ask_sports_loop_yes [OF c 1]] show ?thesis by simp
  next
    case 2
    from Cons.prems [unfolded ask_sports_loop_no [OF c 2]] show ?thesis by simp
  next
    case 3
    from Cons.prems [unfolded ask_sports_loop_invalid [OF c 3]]
    have "ask_sports_loop g ?c = Inl e" .
    moreover have "ls = stdin ?c" by simp
    ultimately show ?thesis by (rule Cons.hyps(1) [rotated])
  qed
qed

declare ask_tennis_question.simps [simp del]

lemma ask_tennis_question_eof: "stdin c = [] \<Longrightarrow> ask_tennis_question g c = Inl EOFError"
  by (simp add: ask_tennis_question.simps [of g c] input_def)

lemma ask_tennis_question_yes:
  "stdin c = l # ls \<Longrightarrow> upper (strip l) = ''Y'' \<Longrightarrow>
   ask_tennis_question g c =
     Inr (g\<lparr>remaining_people := filter_list (\<lambda>p. plays_tennis p) (remaining_people g),
            questions_asked := questions_asked g + 1\<rparr>,
          c\<lparr>stdin := ls, stdout := stdout c @ [Prompt AskTennis]\<rparr>)"
  by (simp add: ask_tennis_question.simps [of g c] input_def)

lemma ask_tennis_question_no:
  "stdin c = l # ls \<Longrightarrow> upper (strip l) = ''N'' \<Longrightarrow>
   ask_tennis_question g c =
     Inr (g\<lparr>remaining_people := filter_list (\<lambda>p. \<not> plays_tennis p) (remaining_people g),
            questions_asked := questions_asked g + 1\<rparr>,
          c\<lparr>stdin := ls, stdout := stdout c @ [Prompt AskTennis]\<rparr>)"
  by (simp add: ask_tennis_question.simps [of g c] input_def)

lemma ask_tennis_question_invalid:
  "stdin c = l # ls \<Longrightarrow> upper (strip l) \<notin> set [''Y'', ''N''] \<Longrightarrow>
   ask_tennis_question g c =
     ask_tennis_question g (c\<lparr>stdin := ls, stdout := stdout c @ [Prompt AskTennis, PleaseEnter AskTennis]\<rparr>)"
  by (simp add: ask_tennis_question.simps [of g c] input_def print_def)

lemma ask_tennis_question_answered:
  "ask_tennis_question g c = Inr (g', c') \<Longrightarrow> answered AskTennis g c g' c'"
proof (induction "stdin c" arbitrary: c)
  case Nil
  then show ?case by (simp add: ask_tennis_question_eof)
next
  case (Cons l ls)
  let ?c = "c\<lparr>stdin := ls, stdout := stdout c @ [Prompt AskTennis, PleaseEnter AskTennis]\<rparr>"
  have c: "stdin c = l # ls" using Cons.hyps(2) by simp
  consider "upper (strip l) = ''Y''" | "upper (strip l) = ''N''"
    | "upper (strip l) \<notin> set [''Y'', ''N'']" by auto
  then show ?case
  proof cases
    case 1
    from Cons.prems [unfolded ask_tennis_question_yes [OF c 1]] show ?thesis
      by (rule answered_now [OF c])
  next
    case 2
    from Cons.prems [unfolded ask_tennis_question_no [OF c 2]] show ?thesis
      by (rule answered_now [OF c])
  next
    case 3
    from Cons.prems [unfolded ask_tennis_question_invalid [OF c 3]]
    have "ask_tennis_question g ?c = Inr (g', c')" .
    moreover have "ls = stdin ?c" by simp
    ultimately have "answered AskTennis g ?c g' c'" by (rule Cons.hyps(1) [rotated])
    then show ?thesis using c by (rule answered_later)
  qed
qed

lemma ask_tennis_question_error: "ask_tennis_question g c = Inl e \<Longrightarrow> e = EOFError"
proof (induction "stdin c" arbitrary: c)
  case Nil
  then show ?case by (simp add: ask_tennis_question_eof)
next
  case (Cons l ls)
  let ?c = "c\<lparr>stdin := ls, stdout := stdout c @ [Prompt AskTennis, PleaseEnter AskTennis]\<rparr>"
  have c: "stdin c = l # ls" using Cons.hyps(2) by simp
  consider "upper (strip l) = ''Y''" | "upper (strip l) = ''N''"
    | "upper (strip l) \<notin> set [''Y'', ''N'']" by auto
  then show ?case
  proof cases
    case 1
    from Cons.prems [unfolded ask_tennis_question_yes [OF c 1]] show ?thesis by simp
  next
    case 2
    from Cons.prems [unfolded ask_tennis_question_no [OF c 2]] show ?thesis by simp
  next
    case 3
    from Cons.prems [unfolded ask_tennis_question_invalid [OF c 3]]
    have "ask_tennis_question g ?c = Inl e" .
    moreover have "ls = stdin ?c" by simp
    ultimately show ?thesis by (rule Cons.hyps(1) [rotated])
  qed
qed

declare ask_ball_sport_question.simps [simp del]

lemma ask_ball_sport_question_eof: "stdin c = [] \<Longrightarrow> ask_ball_sport_question g c = Inl EOFError"
  by (simp add: ask_ball_sport_question.simps [of g c] input_def)

lemma ask_ball_sport_question_yes:
  "stdin c = l # ls \<Longrightarrow> upper (strip l) = ''Y'' \<Longrightarrow>
   ask_ball_sport_question g c =
     Inr (g\<lparr>remaining_people := filter_list (\<lambda>p. plays_ball_sport p) (remaining_people g),
            questions_asked := questions_asked g + 1\<rparr>,
          c\<lparr>stdin := ls, stdout := stdout c @ [Prompt AskBallSport]\<rparr>)"
  by (simp add: ask_ball_sport_question.simps [of g c] input_def)

lemma ask_ball_sport_question_no:
  "stdin c = l # ls \<Longrightarrow> upper (strip l) = ''N'' \<Longrightarrow>
   ask_ball_sport_question g c =
     Inr (g\<lparr>remaining_people := filter_list (\<lambda>p. \<not> plays_ball_sport p) (remaining_people g),
            questions_asked := questions_asked g + 1\<rparr>,
          c\<lparr>stdin := ls, stdout := stdout c @ [Prompt AskBallSport]\<rparr>)"
  by (simp add: ask_ball_sport_question.simps [of g c] input_def)

lemma ask_ball_sport_question_invalid:
  "stdin c = l # ls \<Longrightarrow> upper (strip l) \<notin> set [''Y'', ''N''] \<Longrightarrow>
   ask_ball_sport_question g c =
     ask_ball_sport_question g (c\<lparr>stdin := ls, stdout := stdout c @ [Prompt AskBallSport, PleaseEnter AskBallSport]\<rparr>)"
  by (simp add: ask_ball_sport_question.simps [of g c] input_def print_def)

lemma ask_ball_sport_question_answered:
  "ask_ball_sport_question g c = Inr (g', c') \<Longrightarrow> answered AskBallSport g c g' c'"
proof (induction "stdin c" arbitrary: c)
  case Nil
  then show ?case by (simp add: ask_ball_sport_question_eof)
next
  case (Cons l ls)
  let ?c = "c\<lparr>stdin := ls, stdout := stdout c @ [Prompt AskBallSport, PleaseEnter AskBallSport]\<rparr>"
  have c: "stdin c = l # ls" using Cons.hyps(2) by simp
  consider "upper (strip l) = ''Y''" | "upper (strip l) = ''N''"
    | "upper (strip l) \<notin> set [''Y'', ''N'']" by auto
  then show ?case
  proof cases
    case 1
    from Cons.prems [unfolded ask_ball_sport_question_yes [OF c 1]] show ?thesis
      by (rule answered_now [OF c])
  next
    case 2
    from Cons.prems [unfolded ask_ball_sport_question_no [OF c 2]] show ?thesis
      by (rule answered_now [OF c])
  next
    case 3
    from Cons.prems [unfolded ask_ball_sport_question_invalid [OF c 3]]
    have "ask_ball_sport_question g ?c = Inr (g', c')" .
    moreover have "ls = stdin ?c" by simp
    ultimately have "answered AskBallSport g ?c g' c'" by (rule Cons.hyps(1) [rotated])
    then show ?thesis using c by (rule answered_later)
  qed
qed

lemma ask_ball_sport_question_error: "ask_ball_sport_question g c = Inl e \<Longrightarrow> e = EOFError"
proof (induction "stdin c" arbitrary: c)
  case Nil
  then show ?case by (simp add: ask_ball_sport_question_eof)
next
  case (Cons l ls)
  let ?c = "c\<lparr>stdin := ls, stdout := stdout c @ [Prompt AskBallSport, PleaseEnter AskBallSport]\<rparr>"
  have c: "stdin c = l # ls" using Cons.hyps(2) by simp
  consider "upper (strip l) = ''Y''" | "upper (strip l) = ''N''"
    | "upper (strip l) \<notin> set [''Y'', ''N'']" by auto
  then show ?case
  proof cases
    case 1
    from Cons.prems [unfolded ask_ball_sport_question_yes [OF c 1]] show ?thesis by simp
  next
    case 2
    from Cons.prems [unfolded ask_ball_sport_question_no [OF c 2]] show ?thesis by simp
  next
    case 3
    from Cons.prems [unfolded ask_ball_sport_question_invalid [OF c 3]]
    have "ask_ball_sport_question g ?c = Inl e" .
    moreover have "ls = stdin ?c" by simp
    ultimately show ?thesis by (rule Cons.hyps(1) [rotated])
  qed
qed

declare ask_film_vs_music_question.simps [simp del]

lemma ask_film_vs_music_question_eof: "stdin c = [] \<Longrightarrow> ask_film_vs_music_question g c = Inl EOFError"
  by (simp add: ask_film_vs_music_question.simps [of g c] input_def)

lemma ask_film_vs_music_question_yes:
  "stdin c = l # ls \<Longrightarrow> upper (strip l) = ''Y'' \<Longrightarrow>
   ask_film_vs_music_question g c =
     Inr (g\<lparr>remaining_people := filter_list (\<lambda>p. is_in_film p) (remaining_people g),
            questions_asked := questions_asked g + 1\<rparr>,
          c\<lparr>stdin := ls, stdout := stdout c @ [Prompt AskFilmVsMusic]\<rparr>)"
  by (simp add: ask_film_vs_music_question.simps [of g c] input_def)

lemma ask_film_vs_music_question_no:
  "stdin c = l # ls \<Longrightarrow> upper (strip l) = ''N'' \<Longrightarrow>
   ask_film_vs_music_question g c =
     Inr (g\<lparr>remaining_people := filter_list (\<lambda>p. is_in_music p) (remaining_people g),
            questions_asked := questions_asked g + 1\<rparr>,
          c\<lparr>stdin := ls, stdout := stdout c @ [Prompt AskFilmVsMusic]\<rparr>)"
  by (simp add: ask_film_vs_music_question.simps [of g c] input_def)

lemma ask_film_vs_music_question_invalid:
  "stdin c = l # ls \<Longrightarrow> upper (strip l) \<notin> set [''Y'', ''N''] \<Longrightarrow>
   ask_film_vs_music_question g c =
     ask_film_vs_music_question g (c\<lparr>stdin := ls, stdout := stdout c @ [Prompt AskFilmVsMusic, PleaseEnter AskFilmVsMusic]\<rparr>)"
  by (simp add: ask_film_vs_music_question.simps [of g c] input_def print_def)

lemma ask_film_vs_music_question_answered:
  "ask_film_vs_music_question g c = Inr (g', c') \<Longrightarrow> answered AskFilmVsMusic g c g' c'"
proof (induction "stdin c" arbitrary: c)
  case Nil
  then show ?case by (simp add: ask_film_vs_music_question_eof)
next
  case (Cons l ls)
  let ?c = "c\<lparr>stdin := ls, stdout := stdout c @ [Prompt AskFilmVsMusic, PleaseEnter AskFilmVsMusic]\<rparr>"
  have c: "stdin c = l # ls" using Cons.hyps(2) by simp
  consider "upper (strip l) = ''Y''" | "upper (strip l) = ''N''"
    | "upper (strip l) \<notin> set [''Y'', ''N'']" by auto
  then show ?case
  proof cases
    case 1
    from Cons.prems [unfolded ask_film_vs_music_question_yes [OF c 1]] show ?thesis
      by (rule answered_now [OF c])
  next
    case 2
    from Cons.prems [unfolded ask_film_vs_music_question_no [OF c 2]] show ?thesis
      by (rule answered_now [OF c])
  next
    case 3
    from Cons.prems [unfolded ask_film_vs_music_question_invalid [OF c 3]]
    have "ask_film_vs_music_question g ?c = Inr (g', c')" .
    moreover have "ls = stdin ?c" by simp
    ultimately have "answered AskFilmVsMusic g ?c g' c'" by (rule Cons.hyps(1) [rotated])
    then show ?thesis using c by (rule answered_later)
  qed
qed

lemma ask_film_vs_music_question_error: "ask_film_vs_music_question g c = Inl e \<Longrightarrow> e = EOFError"
proof (induction "stdin c" arbitrary: c)
  case Nil
  then show ?case by (simp add: ask_film_vs_music_question_eof)
next
  case (Cons l ls)
  let ?c = "c\<lparr>stdin := ls, stdout := stdout c @ [Prompt AskFilmVsMusic, PleaseEnter AskFilmVsMusic]\<rparr>"
  have c: "stdin c = l # ls" using Cons.hyps(2) by simp
  consider "upper (strip l) = ''Y''" | "upper (strip l) = ''N''"
    | "upper (strip l) \<notin> set [''Y'', ''N'']" by auto
  then show ?case
  proof cases
    case 1
    from Cons.prems [unfolded ask_film_vs_music_question_yes [OF c 1]] show ?thesis by simp
  next
    case 2
    from Cons.prems [unfolded ask_film_vs_music_question_no [OF c 2]] show ?thesis by simp
  next
    case 3
    from Cons.prems [unfolded ask_film_vs_music_question_invalid [OF c 3]]
    have "ask_film_vs_music_question g ?c = Inl e" .
    moreover have "ls = stdin ?c" by simp
    ultimately show ?thesis by (rule Cons.hyps(1) [rotated])
  qed
qed

declare ask_nationality_loop.simps [simp del]

lemma ask_nationality_loop_eof: "stdin c = [] \<Longrightarrow> ask_nationality_loop mc g c = Inl EOFError"
  by (simp add: ask_nationality_loop.simps [of mc g c] input_def)

lemma ask_nationality_loop_yes:
  "stdin c = l # ls \<Longrightarrow> upper (strip l) = ''Y'' \<Longrightarrow>
   ask_nationality_loop mc g c =
     Inr (g\<lparr>remaining_people := filter_list (\<lambda>p. nationality p = mc) (remaining_people g),
            questions_asked := questions_asked g + 1\<rparr>,
          c\<lparr>stdin := ls, stdout := stdout c @ [Prompt (AskNationality mc)]\<rparr>)"
  by (simp add: ask_nationality_loop.simps [of mc g c] input_def)

lemma ask_nationality_loop_no:
  "stdin c = l # ls \<Longrightarrow> upper (strip l) = ''N'' \<Longrightarrow>
   ask_nationality_loop mc g c =
     Inr (g\<lparr>remaining_people := filter_list (\<lambda>p. nationality p \<noteq> mc) (remaining_people g),
            questions_asked := questions_asked g + 1\<rparr>,
          c\<lparr>stdin := ls, stdout := stdout c @ [Prompt (AskNationality mc)]\<rparr>)"
  by (simp add: ask_nationality_loop.simps [of mc g c] input_def)

lemma ask_nationality_loop_invalid:
  "stdin c = l # ls \<Longrightarrow> upper (strip l) \<notin> set [''Y'', ''N''] \<Longrightarrow>
   ask_nationality_loop mc g c =
     ask_nationality_loop mc g (c\<lparr>stdin := ls, stdout := stdout c @ [Prompt (AskNationality mc), PleaseEnter (AskNationality mc)]\<rparr>)"
  by (simp add: ask_nationality_loop.simps [of mc g c] input_def print_def)

lemma ask_nationality_loop_answered:
  "ask_nationality_loop mc g c = Inr (g', c') \<Longrightarrow> answered (AskNationality mc) g c g' c'"
proof (induction "stdin c" arbitrary: c)
  case Nil
  then show ?case by (simp add: ask_nationality_loop_eof)
next
  case (Cons l ls)
  let ?c = "c\<lparr>stdin := ls, stdout := stdout c @ [Prompt (AskNationality mc), PleaseEnter (AskNationality mc)]\<rparr>"
  have c: "stdin c = l # ls" using Cons.hyps(2) by simp
  consider "upper (strip l) = ''Y''" | "upper (strip l) = ''N''"
    | "upper (strip l) \<notin> set [''Y'', ''N'']" by auto
  then show ?case
  proof cases
    case 1
    from Cons.prems [unfolded ask_nationality_loop_yes [OF c 1]] show ?thesis
      by (rule answered_now [OF c])
  next
    case 2
    from Cons.prems [unfolded ask_nationality_loop_no [OF c 2]] show ?thesis
      by (rule answered_now [OF c])
  next
    case 3
    from Cons.prems [unfolded ask_nationality_loop_invalid [OF c 3]]
    have "ask_nationality_loop mc g ?c = Inr (g', c')" .
    moreover have "ls = stdin ?c" by simp
    ultimately have "answered (AskNationality mc) g ?c g' c'" by (rule Cons.hyps(1) [rotated])
    then show ?thesis using c by (rule answered_later)
  qed
qed

lemma ask_nationality_loop_error: "ask_nationality_loop mc g c = Inl e \<Longrightarrow> e = EOFError"
proof (induction "stdin c" arbitrary: c)
  case Nil
  then show ?case by (simp add: ask_nationality_loop_eof)
next
  case (Cons l ls)
  let ?c = "c\<lparr>stdin := ls, stdout := stdout c @ [Prompt (AskNationality mc), PleaseEnter (AskNationality mc)]\<rparr>"
  have c: "stdin c = l # ls" using Cons.hyps(2) by simp
  consider "upper (strip l) = ''Y''" | "upper (strip l) = ''N''"
    | "upper (strip l) \<notin> set [''Y'', ''N'']" by auto
  then show ?case
  proof cases
    case 1
    from Cons.prems [unfolded ask_nationality_loop_yes [OF c 1]] show ?thesis by simp
  next
    case 2
    from Cons.prems [unfolded ask_nationality_loop_no [OF c 2]] show ?thesis by simp
  next
    case 3
    from Cons.prems [unfolded ask_nationality_loop_invalid [OF c 3]]
    have "ask_nationality_loop mc g ?c = Inl e" .
    moreover have "ls = stdin ?c" by simp
    ultimately show ?thesis by (rule Cons.hyps(1) [rotated])
  qed
qed

declare ask_age_loop.simps [simp del]

lemma ask_age_loop_eof: "stdin c = [] \<Longrightarrow> ask_age_loop g c = Inl EOFError"
  by (simp add: ask_age_loop.simps [of g c] input_def)

lemma ask_age_loop_yes:
  "stdin c = l # ls \<Longrightarrow> upper (strip l) = ''Y'' \<Longrightarrow>
   ask_age_loop g c =
     Inr (g\<lparr>remaining_people := filter_list (\<lambda>p. age p > 40) (remaining_people g),
            questions_asked := questions_asked g + 1\<rparr>,
          c\<lparr>stdin := ls, stdout := stdout c @ [Prompt AskAge]\<rparr>)"
  by (simp add: ask_age_loop.simps [of g c] input_def)

lemma ask_age_loop_no:
  "stdin c = l # ls \<Longrightarrow> upper (strip l) = ''N'' \<Longrightarrow>
   ask_age_loop g c =
     Inr (g\<lparr>remaining_people := filter_list (\<lambda>p. age p \<le> 40) (remaining_people g),
            questions_asked := questions_asked g + 1\<rparr>,
          c\<lparr>stdin := ls, stdout := stdout c @ [Prompt AskAge]\<rparr>)"
  by (simp add: ask_age_loop.simps [of g c] input_def)

lemma ask_age_loop_invalid:
  "stdin c = l # ls \<Longrightarrow> upper (strip l) \<notin> set [''Y'', ''N''] \<Longrightarrow>
   ask_age_loop g c =
     ask_age_loop g (c\<lparr>stdin := ls, stdout := stdout c @ [Prompt AskAge, PleaseEnter AskAge]\<rparr>)"
  by (simp add: ask_age_loop.simps [of g c] input_def print_def)

lemma ask_age_loop_answered:
  "ask_age_loop g c = Inr (g', c') \<Longrightarrow> answered AskAge g c g' c'"
proof (induction "stdin c" arbitrary: c)
  case Nil
  then show ?case by (simp add: ask_age_loop_eof)
next
  case (Cons l ls)
  let ?c = "c\<lparr>stdin := ls, stdout := stdout c @ [Prompt AskAge, PleaseEnter AskAge]\<rparr>"
  have c: "stdin c = l # ls" using Cons.hyps(2) by simp
  consider "upper (strip l) = ''Y''" | "upper (strip l) = ''N''"
    | "upper (strip l) \<notin> set [''Y'', ''N'']" by auto
  then show ?case
  proof cases
    case 1
    from Cons.prems [unfolded ask_age_loop_yes [OF c 1]] show ?thesis
      by (rule answered_now [OF c])
  next
    case 2
    from Cons.prems [unfolded ask_age_loop_no [OF c 2]] show ?thesis
      by (rule answered_now [OF c])
  next
    case 3
    from Cons.prems [unfolded ask_age_loop_invalid [OF c 3]]
    have "ask_age_loop g ?c = Inr (g', c')" .
    moreover have "ls = stdin ?c" by simp
    ultimately have "answered AskAge g ?c g' c'" by (rule Cons.hyps(1) [rotated])
    then show ?thesis using c by (rule answered_later)
  qed
qed

lemma ask_age_loop_error: "ask_age_loop g c = Inl e \<Longrightarrow> e = EOFError"
proof (induction "stdin c" arbitrary: c)
  case Nil
  then show ?case by (simp add: ask_age_loop_eof)
next
  case (Cons l ls)
  let ?c = "c\<lparr>stdin := ls, stdout := stdout c @ [Prompt AskAge, PleaseEnter AskAge]\<rparr>"
  have c: "stdin c = l # ls" using Cons.hyps(2) by simp
  consider "upper (strip l) = ''Y''" | "upper (strip l) = ''N''"
    | "upper (strip l) \<notin> set [''Y'', ''N'']" by auto
  then show ?case
  proof cases
    case 1
    from Cons.prems [unfolded ask_age_loop_yes [OF c 1]] show ?thesis by simp
  next
    case 2
    from Cons.prems [unfolded ask_age_loop_no [OF c 2]] show ?thesis by simp
  next
    case 3
    from Cons.prems [unfolded ask_age_loop_invalid [OF c 3]]
    have "ask_age_loop g ?c = Inl e" .
    moreover have "ls = stdin ?c" by simp
    ultimately show ?thesis by (rule Cons.hyps(1) [rotated])
  qed
qed
declare ask_gender_question.simps [simp del]

lemma ask_gender_question_eof: "stdin c = [] \<Longrightarrow> ask_gender_question g c = Inl EOFError"
  by (simp add: ask_gender_question.simps [of g c] input_def)

lemma ask_gender_question_valid:
  "stdin c = l # ls \<Longrightarrow> upper (strip l) = a \<Longrightarrow> a \<in> set [''M'', ''F''] \<Longrightarrow>
   ask_gender_question g c =
     Inr (g\<lparr>remaining_people := filter_list (\<lambda>p. gender p = a) (remaining_people g),
            questions_asked := questions_asked g + 1\<rparr>,
          c\<lparr>stdin := ls,
            stdout := stdout c @ [Prompt AskGender,
              RemainingPossibilities
                (int (length (filter_list (\<lambda>p. gender p = a) (remaining_people g))))]\<rparr>)"
  by (auto simp: ask_gender_question.simps [of g c] input_def print_def)

lemma ask_gender_question_invalid:
  "stdin c = l # ls \<Longrightarrow> upper (strip l) \<notin> set [''M'', ''F''] \<Longrightarrow>
   ask_gender_question g c =
     ask_gender_question g
       (c\<lparr>stdin := ls, stdout := stdout c @ [Prompt AskGender, PleaseEnter AskGender]\<rparr>)"
  by (simp add: ask_gender_question.simps [of g c] input_def print_def)

lemma ask_gender_question_answered:
  "ask_gender_question g c = Inr (g', c') \<Longrightarrow> answered AskGender g c g' c'"
proof (induction "stdin c" arbitrary: c)
  case Nil
  then show ?case by (simp add: ask_gender_question_eof)
next
  case (Cons l ls)
  let ?c = "c\<lparr>stdin := ls, stdout := stdout c @ [Prompt AskGender, PleaseEnter AskGender]\<rparr>"
  have c: "stdin c = l # ls" using Cons.hyps(2) by simp
  show ?case
  proof (cases "upper (strip l) \<in> set [''M'', ''F'']")
    case True
    from Cons.prems [unfolded ask_gender_question_valid [OF c refl True]] c show ?thesis
      unfolding answered_def by (auto simp: filter_list_eq suffix_Cons)
  next
    case False
    from Cons.prems [unfolded ask_gender_question_invalid [OF c False]]
    have "ask_gender_question g ?c = Inr (g', c')" .
    moreover have "ls = stdin ?c" by simp
    ultimately have "answered AskGender g ?c g' c'" by (rule Cons.hyps(1) [rotated])
    then show ?thesis using c by (rule answered_later)
  qed
qed

declare ask_entertainment_question.simps [simp del]

lemma ask_entertainment_question_eof:
  "stdin c = [] \<Longrightarrow> ask_entertainment_question g c = Inl EOFError"
  by (simp add: ask_entertainment_question.simps [of g c] input_def)

lemma ask_entertainment_question_yes:
  "stdin c = l # ls \<Longrightarrow> upper (strip l) = ''Y'' \<Longrightarrow>
   ask_entertainment_question g c =
     Inr (''entertainment'',
          g\<lparr>remaining_people := filter_list (\<lambda>p. is_in_entertainment p) (remaining_people g),
            questions_asked := questions_asked g + 1\<rparr>,
          c\<lparr>stdin := ls, stdout := stdout c @ [Prompt AskEntertainment]\<rparr>)"
  by (simp add: ask_entertainment_question.simps [of g c] input_def)

lemma ask_entertainment_question_no:
  "stdin c = l # ls \<Longrightarrow> upper (strip l) = ''N'' \<Longrightarrow>
   ask_entertainment_question g c =
     Inr (''other'',
          g\<lparr>remaining_people := filter_list (\<lambda>p. \<not> is_in_entertainment p) (remaining_people g),
            questions_asked := questions_asked g + 1\<rparr>,
          c\<lparr>stdin := ls, stdout := stdout c @ [Prompt AskEntertainment]\<rparr>)"
  by (simp add: ask_entertainment_question.simps [of g c] input_def)

lemma ask_entertainment_question_invalid:
  "stdin c = l # ls \<Longrightarrow> upper (strip l) \<notin> set [''Y'', ''N''] \<Longrightarrow>
   ask_entertainment_question g c =
     ask_entertainment_question g
       (c\<lparr>stdin := ls,
          stdout := stdout c @ [Prompt AskEntertainment, PleaseEnter AskEntertainment]\<rparr>)"
  by (simp add: ask_entertainment_question.simps [of g c] input_def print_def)

lemma ask_entertainment_question_answered:
  "ask_entertainment_question g c = Inr (t, g', c') \<Longrightarrow> answered AskEntertainment g c g' c'"
proof (induction "stdin c" arbitrary: c)
  case Nil
  then show ?case by (simp add: ask_entertainment_question_eof)
next
  case (Cons l ls)
  let ?c = "c\<lparr>stdin := ls,
               stdout := stdout c @ [Prompt AskEntertainment, PleaseEnter AskEntertainment]\<rparr>"
  have c: "stdin c = l # ls" using Cons.hyps(2) by simp
  consider "upper (strip l) = ''Y''" | "upper (strip l) = ''N''"
    | "upper (strip l) \<notin> set [''Y'', ''N'']" by auto
  then show ?case
  proof cases
    case 1
    from Cons.prems [unfolded ask_entertainment_question_yes [OF c 1]] c show ?thesis
      unfolding answered_def by (auto simp: filter_list_eq suffix_Cons)
  next
    case 2
    from Cons.prems [unfolded ask_entertainment_question_no [OF c 2]] c show ?thesis
      unfolding answered_def by (auto simp: filter_list_eq suffix_Cons)
  next
    case 3
    from Cons.prems [unfolded ask_entertainment_question_invalid [OF c 3]]
    have "ask_entertainment_question g ?c = Inr (t, g', c')" .
    moreover have "ls = stdin ?c" by simp
    ultimately have "answered AskEntertainment g ?c g' c'" by (rule Cons.hyps(1) [rotated])
    then show ?thesis using c by (rule answered_later)
  qed
qed

lemma answered_advanced: "answered q g c g' c' \<Longrightarrow> advanced g c g' c'"
  unfolding answered_def advanced_def by auto

lemma advanced_refl: "advanced g c g c"
  unfolding advanced_def by simp

lemma advanced_trans: "advanced g c g1 c1 \<Longrightarrow> advanced g1 c1 g2 c2 \<Longrightarrow> advanced g c g2 c2"
  unfolding advanced_def
  by (auto intro: subseq_order.order_trans suffix_order.order_trans prefix_order.order_trans)

lemma advanced_print: "advanced g (print e c) g' c' \<Longrightarrow> advanced g c g' c'"
  unfolding advanced_def print_def by (auto dest: append_prefixD)

lemma tennis_followup_advanced: "tennis_followup g c = Inr (g', c') \<Longrightarrow> advanced g c g' c'"
  unfolding tennis_followup_def
  by (auto split: if_splits dest: ask_tennis_question_answered answered_advanced
      simp: advanced_refl)

lemma ball_sport_followup_advanced:
  "ball_sport_followup g c = Inr (g', c') \<Longrightarrow> advanced g c g' c'"
  unfolding ball_sport_followup_def
  by (auto split: if_splits dest: ask_ball_sport_question_answered answered_advanced
      simp: advanced_refl)

lemma ask_sports_question_advanced:
  assumes "ask_sports_question g c = Inr (g', c')"
  shows "advanced g c g' c'"
proof (cases "list_ex plays_sport (remaining_people g)")
  case False
  with assms show ?thesis by (simp add: ask_sports_question_def advanced_refl)
next
  case True
  with assms obtain g1 c1 g2 c2 where
    1: "ask_sports_loop g c = Inr (g1, c1)" and
    2: "tennis_followup g1 c1 = Inr (g2, c2)" and
    3: "ball_sport_followup g2 c2 = Inr (g', c')"
    by (auto simp: ask_sports_question_def split: sum.splits)
  from 1 have "advanced g c g1 c1"
    by (blast dest: ask_sports_loop_answered answered_advanced)
  with tennis_followup_advanced [OF 2] ball_sport_followup_advanced [OF 3]
  show ?thesis by (blast intro: advanced_trans)
qed

lemma ask_nationality_question_advanced:
  "ask_nationality_question g c = Inr (g', c') \<Longrightarrow> advanced g c g' c'"
  unfolding ask_nationality_question_def
  by (auto split: if_splits sum.splits dest: ask_nationality_loop_answered answered_advanced
      simp: advanced_refl)

lemma ask_age_question_advanced:
  "ask_age_question g c = Inr (g', c') \<Longrightarrow> advanced g c g' c'"
  unfolding ask_age_question_def
  by (auto split: if_splits dest: ask_age_loop_answered answered_advanced simp: advanced_refl)

lemma ask_by_size_advanced:
  assumes "ask_by_size g c = Inr (g', c')"
  shows "advanced g c g' c'"
proof -
  consider (gender) "length (remaining_people g) > 20"
    | (ent) "\<not> length (remaining_people g) > 20" "length (remaining_people g) > 10"
    | (nat) "\<not> length (remaining_people g) > 10" "length (remaining_people g) > 5"
    | (age) "\<not> length (remaining_people g) > 5" by linarith
  then show ?thesis
  proof cases
    case gender
    with assms show ?thesis
      by (auto simp: ask_by_size_def dest: ask_gender_question_answered answered_advanced)
  next
    case ent
    with assms obtain t g1 c1 where
      1: "ask_entertainment_question g c = Inr (t, g1, c1)" and
      2: "(if t = ''entertainment'' then
             (if list_ex plays_sport (remaining_people g1)
              then ask_sports_question g1 c1 else ask_film_vs_music_question g1 c1)
           else Inr (g1, c1)) = Inr (g', c')"
      by (auto simp: ask_by_size_def split: sum.splits)
    from 1 have a: "advanced g c g1 c1"
      by (blast dest: ask_entertainment_question_answered answered_advanced)
    from 2 have "advanced g1 c1 g' c'"
      by (auto split: if_splits simp: advanced_refl
          dest: ask_sports_question_advanced ask_film_vs_music_question_answered
            answered_advanced)
    with a show ?thesis by (rule advanced_trans)
  next
    case nat
    with assms show ?thesis
      by (auto simp: ask_by_size_def dest: ask_nationality_question_advanced)
  next
    case age
    with assms show ?thesis
      by (auto simp: ask_by_size_def dest: ask_age_question_advanced)
  qed
qed

lemma advanced_printed: "advanced g c g (print e c)"
  unfolding advanced_def print_def by simp

lemma play_round_advanced:
  assumes "play_round g c = Inr (b, g', c')"
  shows "advanced g c g' c'"
proof (cases "length (remaining_people g) = 1 \<or> length (remaining_people g) = 0
    \<or> questions_asked g \<ge> max_questions g")
  case True
  with assms show ?thesis
    by (auto simp: play_round_def advanced_printed split: if_splits)
next
  case False
  with assms have "ask_by_size g
      (print (RoundHeader (questions_asked g + 1) (max_questions g)
                (int (length (remaining_people g)))) c) = Inr (g', c')"
    by (auto simp: play_round_def split: sum.splits)
  then show ?thesis by (blast dest: ask_by_size_advanced advanced_print)
qed

lemma play_rounds_advanced:
  "play_rounds n g c = Some (Inr (g', c')) \<Longrightarrow> advanced g c g' c'"
proof (induction n arbitrary: g c)
  case 0
  then show ?case by simp
next
  case (Suc n)
  from Suc.prems obtain b g1 c1 where 1: "play_round g c = Inr (b, g1, c1)"
    and 2: "if b then play_rounds n g1 c1 = Some (Inr (g', c')) else (g1, c1) = (g', c')"
    by (auto split: sum.splits if_splits)
  from 1 have a: "advanced g c g1 c1" by (rule play_round_advanced)
  show ?case
  proof (cases b)
    case True
    with 2 Suc.IH have "advanced g1 c1 g' c'" by simp
    with a show ?thesis by (rule advanced_trans)
  next
    case False
    with 2 a show ?thesis by simp
  qed
qed

lemma ask_gender_question_error: "ask_gender_question g c = Inl e \<Longrightarrow> e = EOFError"
proof (induction "stdin c" arbitrary: c)
  case Nil
  then show ?case by (simp add: ask_gender_question_eof)
next
  case (Cons l ls)
  let ?c = "c\<lparr>stdin := ls, stdout := stdout c @ [Prompt AskGender, PleaseEnter AskGender]\<rparr>"
  have c: "stdin c = l # ls" using Cons.hyps(2) by simp
  show ?case
  proof (cases "upper (strip l) \<in> set [''M'', ''F'']")
    case True
    from Cons.prems [unfolded ask_gender_question_valid [OF c refl True]] show ?thesis by simp
  next
    case False
    from Cons.prems [unfolded ask_gender_question_invalid [OF c False]]
    have "ask_gender_question g ?c = Inl e" .
    moreover have "ls = stdin ?c" by simp
    ultimately show ?thesis by (rule Cons.hyps(1) [rotated])
  qed
qed

lemma ask_entertainment_question_error:
  "ask_entertainment_question g c = Inl e \<Longrightarrow> e = EOFError"
proof (induction "stdin c" arbitrary: c)
  case Nil
  then show ?case by (simp add: ask_entertainment_question_eof)
next
  case (Cons l ls)
  let ?c = "c\<lparr>stdin := ls,
               stdout := stdout c @ [Prompt AskEntertainment, PleaseEnter AskEntertainment]\<rparr>"
  have c: "stdin c = l # ls" using Cons.hyps(2) by simp
  consider "upper (strip l) = ''Y''" | "upper (strip l) = ''N''"
    | "upper (strip l) \<notin> set [''Y'', ''N'']" by auto
  then show ?case
  proof cases
    case 1
    from Cons.prems [unfolded ask_entertainment_question_yes [OF c 1]] show ?thesis by simp
  next
    case 2
    from Cons.prems [unfolded ask_entertainment_question_no [OF c 2]] show ?thesis by simp
  next
    case 3
    from Cons.prems [unfolded ask_entertainment_question_invalid [OF c 3]]
    have "ask_entertainment_question g ?c = Inl e" .
    moreover have "ls = stdin ?c" by simp
    ultimately show ?thesis by (rule Cons.hyps(1) [rotated])
  qed
qed

text \<open>The only exception a question can raise is the end of the input.\<close>

lemma tennis_followup_error: "tennis_followup g c = Inl e \<Longrightarrow> e = EOFError"
  by (cases "length (remaining_people g) > 3 \<and> list_ex plays_tennis (remaining_people g)")
     (auto simp: tennis_followup_def dest: ask_tennis_question_error)

lemma ball_sport_followup_error: "ball_sport_followup g c = Inl e \<Longrightarrow> e = EOFError"
  by (cases "length (remaining_people g) > 3 \<and> list_ex plays_ball_sport (remaining_people g)")
     (auto simp: ball_sport_followup_def dest: ask_ball_sport_question_error)

lemma ask_sports_question_error:
  assumes "ask_sports_question g c = Inl e"
  shows "e = EOFError"
proof (cases "list_ex plays_sport (remaining_people g)")
  case False
  with assms show ?thesis by (simp add: ask_sports_question_def)
next
  case True
  show ?thesis
  proof (cases "ask_sports_loop g c")
    case (Inl e1)
    with assms True have "e1 = e" by (simp add: ask_sports_question_def)
    with Inl show ?thesis by (auto dest: ask_sports_loop_error)
  next
    case (Inr r)
    obtain g1 c1 where r: "r = (g1, c1)" by (cases r)
    show ?thesis
    proof (cases "tennis_followup g1 c1")
      case (Inl e2)
      with assms True Inr r have "e2 = e" by (simp add: ask_sports_question_def)
      with Inl show ?thesis by (auto dest: tennis_followup_error)
    next
      case (Inr r2)
      obtain g2 c2 where r2: "r2 = (g2, c2)" by (cases r2)
      from assms True \<open>ask_sports_loop g c = Inr r\<close> r Inr r2
      have "ball_sport_followup g2 c2 = Inl e" by (simp add: ask_sports_question_def)
      then show ?thesis by (rule ball_sport_followup_error)
    qed
  qed
qed

lemma ask_age_question_error: "ask_age_question g c = Inl e \<Longrightarrow> e = EOFError"
  by (cases "length (remaining_people g) \<le> 2")
     (auto simp: ask_age_question_def dest: ask_age_loop_error)

section \<open>Person predicates\<close>

text \<open>
  C9. A person is in entertainment exactly when exactly one of \<open>plays_sport\<close>,
  \<open>is_in_music\<close>, \<open>is_in_film\<close> holds, and no two of these three hold together: each
  compares the industry with a label of its own.
\<close>

theorem entertainment_iff_exactly_one:
  "(is_in_entertainment p \<longleftrightarrow>
      (plays_sport p \<and> \<not> is_in_music p \<and> \<not> is_in_film p)
    \<or> (\<not> plays_sport p \<and> is_in_music p \<and> \<not> is_in_film p)
    \<or> (\<not> plays_sport p \<and> \<not> is_in_music p \<and> is_in_film p))
   \<and> \<not> (plays_sport p \<and> is_in_music p)
   \<and> \<not> (plays_sport p \<and> is_in_film p)
   \<and> \<not> (is_in_music p \<and> is_in_film p)"
  by (auto simp: is_in_entertainment_def plays_sport_def is_in_music_def is_in_film_def)

theorem entertainment_iff_exactly_one_witness:
  "is_in_entertainment (from_tuple swift) \<and> is_in_music (from_tuple swift)
   \<and> \<not> plays_sport (from_tuple swift) \<and> \<not> is_in_film (from_tuple swift)"
proof -
  have "is_in_music (from_tuple swift)" by code_simp
  with entertainment_iff_exactly_one [of "from_tuple swift"] show ?thesis by blast
qed

text \<open>
  C10. Whoever plays tennis plays a ball sport: \<open>tennis\<close> is one of the keywords that
  \<open>plays_ball_sport\<close> looks for in the same lower-cased occupation.
\<close>

theorem plays_tennis_imp_plays_ball_sport:
  "plays_tennis p \<Longrightarrow> plays_ball_sport p"
  by (simp add: plays_tennis_def plays_ball_sport_def ball_sports_def)

theorem plays_tennis_imp_plays_ball_sport_witness:
  "plays_tennis (from_tuple federer) \<and> plays_ball_sport (from_tuple federer)"
proof -
  have h: "plays_tennis (from_tuple federer)" by code_simp
  from h plays_tennis_imp_plays_ball_sport [OF h] show ?thesis by simp
qed

section \<open>Filtering\<close>

text \<open>
  C6. Filtering a candidate list by a predicate yields the elements that satisfy it, in
  their original order, as a subsequence of the list; filtering twice by the same
  predicate is filtering once; and the candidates after a round, or after any number of
  rounds, are a subsequence of the candidates before.
\<close>

theorem filter_list_subseq_idem_never_grows:
  "subseq (filter_list P S) S
   \<and> filter_list P S = filter P S
   \<and> filter_list P (filter_list P S) = filter_list P S
   \<and> (play_round g c = Inr (b, g1, c1) \<longrightarrow>
        subseq (remaining_people g1) (remaining_people g)
        \<and> length (remaining_people g1) \<le> length (remaining_people g))
   \<and> (play_rounds n g c = Some (Inr (g2, c2)) \<longrightarrow>
        subseq (remaining_people g2) (remaining_people g)
        \<and> length (remaining_people g2) \<le> length (remaining_people g))"
proof -
  have "subseq (filter_list P S) S" by (simp add: filter_list_eq)
  moreover have "filter_list P S = filter P S" by (rule filter_list_eq)
  moreover have "filter_list P (filter_list P S) = filter_list P S"
    by (simp add: filter_list_eq)
  moreover have "subseq (remaining_people g1) (remaining_people g)
      \<and> length (remaining_people g1) \<le> length (remaining_people g)"
    if "play_round g c = Inr (b, g1, c1)"
    using play_round_advanced [OF that] by (auto simp: advanced_def dest: list_emb_length)
  moreover have "subseq (remaining_people g2) (remaining_people g)
      \<and> length (remaining_people g2) \<le> length (remaining_people g)"
    if "play_rounds n g c = Some (Inr (g2, c2))"
    using play_rounds_advanced [OF that] by (auto simp: advanced_def dest: list_emb_length)
  ultimately show ?thesis by blast
qed

theorem filter_list_subseq_idem_never_grows_witness:
  "\<exists>b g1 c1 g2 c2.
     play_round (game_on three_players) (typing [''n'']) = Inr (b, g1, c1)
   \<and> play_rounds 2 (game_on three_players) (typing [''n'']) = Some (Inr (g2, c2))
   \<and> subseq (remaining_people g1) (remaining_people (game_on three_players))
   \<and> subseq (remaining_people g2) (remaining_people (game_on three_players))
   \<and> length (remaining_people g2) = 1"
proof -
  let ?g = "game_on three_players" and ?c = "typing [''n'']"
  have "\<not> isl (play_round ?g ?c)" by code_simp
  then obtain b g1 c1 where 1: "play_round ?g ?c = Inr (b, g1, c1)"
    by (cases "play_round ?g ?c") auto
  have "case play_rounds 2 ?g ?c of Some (Inr (g2, c2)) \<Rightarrow> length (remaining_people g2) = 1
        | _ \<Rightarrow> False" by code_simp
  then obtain g2 c2 where 2: "play_rounds 2 ?g ?c = Some (Inr (g2, c2))"
    and 3: "length (remaining_people g2) = 1"
    by (auto split: option.splits sum.splits)
  from 1 2 3
    filter_list_subseq_idem_never_grows [where g = ?g and c = ?c and b = b and ?g1.0 = g1
      and ?c1.0 = c1 and n = 2 and ?g2.0 = g2 and ?c2.0 = c2]
  show ?thesis by blast
qed

section \<open>Answers that are not allowed\<close>

lemma rejected_Cons:
  "stdin c = l # ls \<Longrightarrow>
   rejected q c = c\<lparr>stdin := ls, stdout := stdout c @ [Prompt q, PleaseEnter q]\<rparr>"
  by (simp add: rejected_def)

text \<open>
  C7. When the line read at a question is not an allowed answer (after stripping and
  upper-casing: not \<open>M\<close> or \<open>F\<close> for the gender question, not \<open>Y\<close> or \<open>N\<close> for the others),
  the question is put again to the same game: the result is that of asking it afresh,
  with the same counter and the same candidates, on the rest of the input. The terminal
  has gained only the prompt and the complaint.
\<close>

theorem invalid_answer_asks_again:
  assumes "stdin c = l # ls"
  shows "(upper (strip l) \<notin> set [''M'', ''F''] \<longrightarrow>
            ask_gender_question g c = ask_gender_question g (rejected AskGender c))
       \<and> (upper (strip l) \<notin> set [''Y'', ''N''] \<longrightarrow>
            ask_entertainment_question g c
              = ask_entertainment_question g (rejected AskEntertainment c)
          \<and> (list_ex plays_sport (remaining_people g) \<longrightarrow>
               ask_sports_question g c = ask_sports_question g (rejected AskSports c))
          \<and> ask_tennis_question g c = ask_tennis_question g (rejected AskTennis c)
          \<and> ask_ball_sport_question g c
              = ask_ball_sport_question g (rejected AskBallSport c)
          \<and> ask_film_vs_music_question g c
              = ask_film_vs_music_question g (rejected AskFilmVsMusic c)
          \<and> (length (remaining_people g) > 2 \<and> most_common (remaining_people g) = Inr mc
                \<and> dict_item (count_nationalities (remaining_people g)) mc > 1 \<longrightarrow>
               ask_nationality_question g c
                 = ask_nationality_question g (rejected (AskNationality mc) c))
          \<and> (length (remaining_people g) > 2 \<longrightarrow>
               ask_age_question g c = ask_age_question g (rejected AskAge c)))"
proof (intro conjI impI)
  assume "upper (strip l) \<notin> set [''M'', ''F'']"
  with assms show "ask_gender_question g c = ask_gender_question g (rejected AskGender c)"
    by (simp add: ask_gender_question_invalid rejected_Cons)
next
  assume "upper (strip l) \<notin> set [''Y'', ''N'']"
  with assms show "ask_entertainment_question g c
      = ask_entertainment_question g (rejected AskEntertainment c)"
    by (simp add: ask_entertainment_question_invalid rejected_Cons)
next
  assume "upper (strip l) \<notin> set [''Y'', ''N'']" "list_ex plays_sport (remaining_people g)"
  with assms show "ask_sports_question g c = ask_sports_question g (rejected AskSports c)"
    by (simp add: ask_sports_question_def ask_sports_loop_invalid rejected_Cons)
next
  assume "upper (strip l) \<notin> set [''Y'', ''N'']"
  with assms show "ask_tennis_question g c = ask_tennis_question g (rejected AskTennis c)"
    by (simp add: ask_tennis_question_invalid rejected_Cons)
next
  assume "upper (strip l) \<notin> set [''Y'', ''N'']"
  with assms show "ask_ball_sport_question g c
      = ask_ball_sport_question g (rejected AskBallSport c)"
    by (simp add: ask_ball_sport_question_invalid rejected_Cons)
next
  assume "upper (strip l) \<notin> set [''Y'', ''N'']"
  with assms show "ask_film_vs_music_question g c
      = ask_film_vs_music_question g (rejected AskFilmVsMusic c)"
    by (simp add: ask_film_vs_music_question_invalid rejected_Cons)
next
  assume "upper (strip l) \<notin> set [''Y'', ''N'']"
    "length (remaining_people g) > 2 \<and> most_common (remaining_people g) = Inr mc
      \<and> dict_item (count_nationalities (remaining_people g)) mc > 1"
  with assms show "ask_nationality_question g c
      = ask_nationality_question g (rejected (AskNationality mc) c)"
    by (simp add: ask_nationality_question_def ask_nationality_loop_invalid rejected_Cons)
next
  assume "upper (strip l) \<notin> set [''Y'', ''N'']" "length (remaining_people g) > 2"
  with assms show "ask_age_question g c = ask_age_question g (rejected AskAge c)"
    by (simp add: ask_age_question_def ask_age_loop_invalid rejected_Cons)
qed

text \<open>The same game with five candidates, asked each question with the lines
  \<open>maybe\<close> and then \<open>y\<close>: the first line changes nothing but the terminal.\<close>

theorem invalid_answer_asks_again_witness:
  "ask_gender_question (game_on tennis_five) (typing [''maybe'', ''f''])
     = ask_gender_question (game_on tennis_five) (rejected AskGender (typing [''maybe'', ''f'']))
   \<and> ask_entertainment_question (game_on tennis_five) (typing [''maybe'', ''y''])
     = ask_entertainment_question (game_on tennis_five)
         (rejected AskEntertainment (typing [''maybe'', ''y'']))
   \<and> ask_sports_question (game_on tennis_five) (typing [''maybe'', ''y''])
     = ask_sports_question (game_on tennis_five) (rejected AskSports (typing [''maybe'', ''y'']))
   \<and> ask_tennis_question (game_on tennis_five) (typing [''maybe'', ''y''])
     = ask_tennis_question (game_on tennis_five) (rejected AskTennis (typing [''maybe'', ''y'']))
   \<and> ask_ball_sport_question (game_on tennis_five) (typing [''maybe'', ''y''])
     = ask_ball_sport_question (game_on tennis_five)
         (rejected AskBallSport (typing [''maybe'', ''y'']))
   \<and> ask_film_vs_music_question (game_on tennis_five) (typing [''maybe'', ''y''])
     = ask_film_vs_music_question (game_on tennis_five)
         (rejected AskFilmVsMusic (typing [''maybe'', ''y'']))
   \<and> ask_nationality_question (game_on tennis_five) (typing [''maybe'', ''y''])
     = ask_nationality_question (game_on tennis_five)
         (rejected (AskNationality ''USA'') (typing [''maybe'', ''y'']))
   \<and> ask_age_question (game_on tennis_five) (typing [''maybe'', ''y''])
     = ask_age_question (game_on tennis_five) (rejected AskAge (typing [''maybe'', ''y'']))
   \<and> questions_asked (fst (projr (ask_age_question (game_on tennis_five)
        (typing [''maybe'', ''y''])))) = 1"
proof -
  let ?g = "game_on tennis_five"
  have c1: "stdin (typing [''maybe'', ''f'']) = ''maybe'' # [''f'']" by (simp add: typing_def)
  have c2: "stdin (typing [''maybe'', ''y'']) = ''maybe'' # [''y'']" by (simp add: typing_def)
  have mf: "upper (strip ''maybe'') \<notin> set [''M'', ''F'']" by code_simp
  have yn: "upper (strip ''maybe'') \<notin> set [''Y'', ''N'']" by code_simp
  have sp: "list_ex plays_sport (remaining_people ?g)" by code_simp
  have n: "length (remaining_people ?g) > 2" by code_simp
  have mc: "most_common (remaining_people ?g) = Inr ''USA''" by code_simp
  have cnt: "dict_item (count_nationalities (remaining_people ?g)) ''USA'' > 1" by code_simp
  have q: "questions_asked (fst (projr (ask_age_question ?g (typing [''maybe'', ''y''])))) = 1"
    by code_simp
  from invalid_answer_asks_again [OF c1, where g = ?g] mf
  have 1: "ask_gender_question ?g (typing [''maybe'', ''f''])
      = ask_gender_question ?g (rejected AskGender (typing [''maybe'', ''f'']))" by blast
  from invalid_answer_asks_again [OF c2, where g = ?g and mc = "''USA''"] yn sp n mc cnt q
  show ?thesis using 1 by blast
qed

section \<open>The most common nationality\<close>

lemma count_nationalities_snoc:
  "count_nationalities (ps @ [p]) =
     AList.update (nationality p)
       (dict_get (count_nationalities ps) (nationality p) 0 + 1) (count_nationalities ps)"
  by (simp add: count_nationalities_def Let_def)

lemma count_nationalities_Nil: "count_nationalities [] = []"
  by (simp add: count_nationalities_def)

lemma map_of_count_nationalities:
  "map_of (count_nationalities ps) k =
     (if k \<in> nationality ` set ps then Some (int (count_list (map nationality ps) k)) else None)"
proof (induction ps arbitrary: k rule: rev_induct)
  case Nil
  show ?case by (simp add: count_nationalities_Nil)
next
  case (snoc p ps)
  show ?case
    by (auto simp: count_nationalities_snoc update_conv' snoc.IH dict_get_def)
qed

lemma keys_count_nationalities_snoc:
  "map fst (count_nationalities (ps @ [p])) =
     (if nationality p \<in> nationality ` set ps then map fst (count_nationalities ps)
      else map fst (count_nationalities ps) @ [nationality p])"
proof -
  have "set (map fst (count_nationalities ps)) = dom (map_of (count_nationalities ps))"
    by (simp add: dom_map_of_conv_image_fst)
  also have "\<dots> = nationality ` set ps"
    by (auto simp: map_of_count_nationalities dom_def)
  finally show ?thesis
    by (simp add: count_nationalities_snoc update_keys)
qed

lemma keys_count_nationalities:
  "set (map fst (count_nationalities ps)) = nationality ` set ps
   \<and> distinct (map fst (count_nationalities ps))
   \<and> (\<forall>m \<in> nationality ` set ps.
        set (takeWhile (\<lambda>n. n \<noteq> m) (map nationality ps))
          \<subseteq> set (takeWhile (\<lambda>n. n \<noteq> m) (map fst (count_nationalities ps))))"
proof (induction ps rule: rev_induct)
  case Nil
  show ?case by (simp add: count_nationalities_Nil)
next
  case (snoc p ps)
  let ?K = "map fst (count_nationalities ps)"
  from snoc.IH have K: "set ?K = nationality ` set ps" and d: "distinct ?K"
    and ord: "\<And>m. m \<in> nationality ` set ps \<Longrightarrow>
        set (takeWhile (\<lambda>n. n \<noteq> m) (map nationality ps))
          \<subseteq> set (takeWhile (\<lambda>n. n \<noteq> m) ?K)"
    by blast+
  have "set (takeWhile (\<lambda>n. n \<noteq> m) (map nationality (ps @ [p])))
      \<subseteq> set (takeWhile (\<lambda>n. n \<noteq> m) (map fst (count_nationalities (ps @ [p]))))"
    if m: "m \<in> nationality ` set (ps @ [p])" for m
  proof (cases "m \<in> nationality ` set ps")
    case True
    then have 1: "takeWhile (\<lambda>n. n \<noteq> m) (map nationality (ps @ [p]))
        = takeWhile (\<lambda>n. n \<noteq> m) (map nationality ps)"
      by (auto simp: takeWhile_append1)
    from True K have "m \<in> set ?K" by simp
    then have 2: "takeWhile (\<lambda>n. n \<noteq> m) (map fst (count_nationalities (ps @ [p])))
        = takeWhile (\<lambda>n. n \<noteq> m) ?K"
      by (auto simp: keys_count_nationalities_snoc takeWhile_append1)
    show ?thesis unfolding 1 2 using True by (rule ord)
  next
    case False
    with m have mp: "m = nationality p" by auto
    from False have nin: "nationality x \<noteq> nationality p" if "x \<in> set ps" for x
      using that unfolding mp by (metis imageI)
    have 1: "takeWhile (\<lambda>n. n \<noteq> m) (map nationality (ps @ [p]))
        = map nationality ps"
      unfolding map_append mp by (subst takeWhile_append2) (auto simp: nin)
    from False K have nk: "m \<notin> set ?K" by simp
    have keys: "map fst (count_nationalities (ps @ [p])) = ?K @ [m]"
      using False unfolding mp by (simp add: keys_count_nationalities_snoc)
    have 2: "takeWhile (\<lambda>n. n \<noteq> m) (map fst (count_nationalities (ps @ [p]))) = ?K"
      unfolding keys using nk by (subst takeWhile_append2) (blast, simp)
    show ?thesis unfolding 1 2 using K by simp
  qed
  moreover have "set (map fst (count_nationalities (ps @ [p]))) = nationality ` set (ps @ [p])"
    using K by (auto simp: keys_count_nationalities_snoc)
  moreover have "distinct (map fst (count_nationalities (ps @ [p])))"
    using K d by (auto simp: keys_count_nationalities_snoc)
  ultimately show ?case by blast
qed

lemma dict_item_count_nationalities:
  "k \<in> nationality ` set ps \<Longrightarrow>
   dict_item (count_nationalities ps) k = int (count_list (map nationality ps) k)"
  by (simp add: dict_item_def map_of_count_nationalities)

text \<open>The one pass of \<open>max\<close>: what it holds is the first greatest element seen so far.\<close>

lemma max_pass_first_greatest:
  "\<exists>pre post. x # xs
       = pre @ fold (\<lambda>y best. if (key best :: int) < key y then y else best) xs x # post
     \<and> (\<forall>k \<in> set pre. key k < key (fold (\<lambda>y best. if key best < key y then y else best) xs x))
     \<and> (\<forall>k \<in> set (x # xs).
           key k \<le> key (fold (\<lambda>y best. if key best < key y then y else best) xs x))"
proof (induction xs rule: rev_induct)
  case Nil
  show ?case by (intro exI [of _ "[]"]) simp
next
  case (snoc y xs)
  let ?m = "fold (\<lambda>y best. if key best < key y then y else best) xs x"
  from snoc.IH obtain pre post where
    split: "x # xs = pre @ ?m # post" and
    before: "\<forall>k \<in> set pre. key k < key ?m" and
    all: "\<forall>k \<in> set (x # xs). key k \<le> key ?m" by blast
  show ?case
  proof (cases "key ?m < (key y :: int)")
    case True
    from all True have "\<forall>k \<in> set (x # xs). key k < key y" by fastforce
    moreover from all True have "\<forall>k \<in> set (x # xs @ [y]). key k \<le> key y" by fastforce
    ultimately show ?thesis using True
      by (intro exI [of _ "x # xs"] exI [of _ "[]"]) simp
  next
    case False
    from split have "x # xs @ [y] = pre @ ?m # (post @ [y])" by simp
    moreover from all False have "\<forall>k \<in> set (x # xs @ [y]). key k \<le> key ?m" by auto
    ultimately show ?thesis using False before
      by (intro exI [of _ pre] exI [of _ "post @ [y]"]) simp
  qed
qed

lemma py_max_first_greatest:
  assumes "xs \<noteq> []"
  shows "\<exists>m pre post. py_max key xs = Inr m \<and> xs = pre @ m # post
     \<and> (\<forall>k \<in> set pre. key k < key m) \<and> (\<forall>k \<in> set xs. key k \<le> key m)"
proof -
  from assms obtain x rest where xs: "xs = x # rest" by (cases xs) auto
  from max_pass_first_greatest [of x rest key] show ?thesis
    unfolding xs py_max_def by auto
qed

text \<open>
  \<open>most_common\<close> returns the first nationality, in the order of the candidates, whose
  number of occurrences is the greatest.
\<close>

lemma most_common_first_greatest:
  assumes "ps \<noteq> []"
  shows "\<exists>mc pre post. most_common ps = Inr mc
     \<and> map nationality ps = pre @ mc # post
     \<and> (\<forall>n \<in> set pre. count_list (map nationality ps) n < count_list (map nationality ps) mc)
     \<and> (\<forall>n \<in> set (map nationality ps).
          count_list (map nationality ps) n \<le> count_list (map nationality ps) mc)
     \<and> dict_item (count_nationalities ps) mc = int (count_list (map nationality ps) mc)"
proof -
  let ?d = "count_nationalities ps" and ?nats = "map nationality ps"
  let ?K = "map fst ?d"
  from keys_count_nationalities [of ps] have K: "set ?K = nationality ` set ps"
    and d: "distinct ?K"
    and ord: "\<And>m. m \<in> nationality ` set ps \<Longrightarrow>
        set (takeWhile (\<lambda>n. n \<noteq> m) ?nats) \<subseteq> set (takeWhile (\<lambda>n. n \<noteq> m) ?K)"
    by blast+
  from assms K have "?K \<noteq> []" by auto
  from py_max_first_greatest [OF this, of "\<lambda>x. dict_item ?d x"]
  obtain mc pre post where
    m: "py_max (\<lambda>x. dict_item ?d x) ?K = Inr mc" and
    split: "?K = pre @ mc # post" and
    before: "\<forall>k \<in> set pre. dict_item ?d k < dict_item ?d mc" and
    all: "\<forall>k \<in> set ?K. dict_item ?d k \<le> dict_item ?d mc" by blast
  from split have "mc \<in> set ?K" by (metis in_set_conv_decomp)
  with K have mc: "mc \<in> nationality ` set ps" by simp
  then have mc': "mc \<in> set ?nats" by (metis set_map)
  from d split have "mc \<notin> set pre" by (metis distinct_append distinct.simps(2) disjoint_iff
        list.set_intros(1))
  then have tw: "takeWhile (\<lambda>n. n \<noteq> mc) ?K = pre"
    unfolding split by (subst takeWhile_append2) auto
  have pre_sub: "set pre \<subseteq> nationality ` set ps"
    using K split by (metis Un_iff set_append subsetI)
  have 1: "most_common ps = Inr mc" using m by (simp add: most_common_def)
  from split_list_first [OF mc'] obtain ys zs where
    2: "?nats = ys @ mc # zs" and nin: "mc \<notin> set ys" by blast
  then have tw': "takeWhile (\<lambda>n. n \<noteq> mc) ?nats = ys"
    by (simp only: 2) (subst takeWhile_append2; auto)
  have 3: "count_list ?nats n < count_list ?nats mc" if "n \<in> set ys" for n
  proof -
    from that ord [OF mc] tw tw' have n: "n \<in> set pre" by auto
    with before have "dict_item ?d n < dict_item ?d mc" by simp
    moreover from n pre_sub have "n \<in> nationality ` set ps" by auto
    ultimately show ?thesis using mc by (simp add: dict_item_count_nationalities)
  qed
  have 4: "count_list ?nats n \<le> count_list ?nats mc" if "n \<in> set ?nats" for n
  proof -
    from that have n: "n \<in> nationality ` set ps" by (metis set_map)
    with K have "n \<in> set ?K" by blast
    with all have "dict_item ?d n \<le> dict_item ?d mc" by blast
    with n mc show ?thesis by (simp add: dict_item_count_nationalities)
  qed
  have 5: "dict_item ?d mc = int (count_list ?nats mc)"
    using mc by (rule dict_item_count_nationalities)
  from 1 2 3 4 5 show ?thesis by blast
qed

lemma ask_nationality_question_cases:
  assumes "length (remaining_people g) > 2"
  obtains mc where "most_common (remaining_people g) = Inr mc"
    and "\<And>c. count_list (map nationality (remaining_people g)) mc \<le> 1 \<Longrightarrow>
           ask_nationality_question g c = Inr (g, c)"
    and "\<And>c. count_list (map nationality (remaining_people g)) mc > 1 \<Longrightarrow>
           ask_nationality_question g c = ask_nationality_loop mc g c"
proof -
  from assms have "remaining_people g \<noteq> []" by auto
  from most_common_first_greatest [OF this] obtain mc where
    mc: "most_common (remaining_people g) = Inr mc" and
    item: "dict_item (count_nationalities (remaining_people g)) mc
      = int (count_list (map nationality (remaining_people g)) mc)" by blast
  show thesis
  proof (rule that [OF mc])
    fix c
    show "ask_nationality_question g c = Inr (g, c)"
      if "count_list (map nationality (remaining_people g)) mc \<le> 1"
      using that assms mc item by (simp add: ask_nationality_question_def)
    show "ask_nationality_question g c = ask_nationality_loop mc g c"
      if "count_list (map nationality (remaining_people g)) mc > 1"
      using that assms mc item by (simp add: ask_nationality_question_def)
  qed
qed

lemma ask_nationality_question_error:
  assumes "ask_nationality_question g c = Inl e"
  shows "e = EOFError"
proof (cases "length (remaining_people g) > 2")
  case False
  with assms show ?thesis by (simp add: ask_nationality_question_def)
next
  case True
  from ask_nationality_question_cases [OF True] obtain mc where
    skip: "\<And>c. count_list (map nationality (remaining_people g)) mc \<le> 1 \<Longrightarrow>
           ask_nationality_question g c = Inr (g, c)" and
    ask: "\<And>c. count_list (map nationality (remaining_people g)) mc > 1 \<Longrightarrow>
           ask_nationality_question g c = ask_nationality_loop mc g c" by blast
  show ?thesis
  proof (cases "count_list (map nationality (remaining_people g)) mc > 1")
    case True
    with assms ask show ?thesis by (auto dest: ask_nationality_loop_error)
  next
    case False
    then have "count_list (map nationality (remaining_people g)) mc \<le> 1" by simp
    from skip [OF this, of c] assms show ?thesis by simp
  qed
qed

lemma ask_by_size_error:
  assumes "ask_by_size g c = Inl e"
  shows "e = EOFError"
proof -
  consider (gender) "length (remaining_people g) > 20"
    | (ent) "\<not> length (remaining_people g) > 20" "length (remaining_people g) > 10"
    | (nat) "\<not> length (remaining_people g) > 10" "length (remaining_people g) > 5"
    | (age) "\<not> length (remaining_people g) > 5" by linarith
  then show ?thesis
  proof cases
    case gender
    with assms have "ask_gender_question g c = Inl e" by (simp add: ask_by_size_def)
    then show ?thesis by (rule ask_gender_question_error)
  next
    case ent
    show ?thesis
    proof (cases "ask_entertainment_question g c")
      case (Inl e1)
      with assms ent have "e1 = e" by (simp add: ask_by_size_def)
      with Inl show ?thesis by (auto dest: ask_entertainment_question_error)
    next
      case (Inr r)
      obtain t g1 c1 where r: "r = (t, g1, c1)" by (cases r)
      from assms ent Inr r consider
        "ask_sports_question g1 c1 = Inl e" | "ask_film_vs_music_question g1 c1 = Inl e"
        by (auto simp: ask_by_size_def split: if_splits)
      then show ?thesis
        by cases (blast dest: ask_sports_question_error ask_film_vs_music_question_error)+
    qed
  next
    case nat
    with assms have "ask_nationality_question g c = Inl e" by (simp add: ask_by_size_def)
    then show ?thesis by (rule ask_nationality_question_error)
  next
    case age
    with assms have "ask_age_question g c = Inl e" by (simp add: ask_by_size_def)
    then show ?thesis by (rule ask_age_question_error)
  qed
qed

lemma play_round_error:
  assumes "play_round g c = Inl e"
  shows "e = EOFError"
proof -
  from assms have "ask_by_size g
      (print (RoundHeader (questions_asked g + 1) (max_questions g)
                (int (length (remaining_people g)))) c) = Inl e"
    by (auto simp: play_round_def split: if_splits sum.splits)
  then show ?thesis by (rule ask_by_size_error)
qed

section \<open>The terminal checks of a round\<close>

lemma play_round_proceeds:
  assumes "length (remaining_people g) > 1" and "questions_asked g < max_questions g"
  shows "play_round g c =
    (case ask_by_size g (print (RoundHeader (questions_asked g + 1) (max_questions g)
                                  (int (length (remaining_people g)))) c) of
       Inl e \<Rightarrow> Inl e | Inr (g1, c1) \<Rightarrow> Inr (True, g1, c1))"
  using assms by (auto simp: play_round_def)

text \<open>
  C4. The nationality question is not put to two candidates or fewer. Otherwise the
  nationality it names is computed from the candidates that remain at that call alone:
  it is the first nationality, in their order, whose number of occurrences is the
  greatest, so every nationality met before it occurs strictly less often and none
  occurs more often. When it occurs only once the question is skipped and nothing is
  read or written; when it occurs more than once the question is put, and the answer
  \<open>Y\<close> keeps the candidates whose nationality is that very string, \<open>N\<close> those whose
  nationality is another, and counts one question.
\<close>

theorem nationality_question_most_common:
  "(length (remaining_people g) \<le> 2 \<longrightarrow> ask_nationality_question g c = Inr (g, c))
   \<and> (length (remaining_people g) > 2 \<longrightarrow>
     (\<exists>mc pre post.
        most_common (remaining_people g) = Inr mc
      \<and> map nationality (remaining_people g) = pre @ mc # post
      \<and> (\<forall>n \<in> set pre. count_list (map nationality (remaining_people g)) n
                          < count_list (map nationality (remaining_people g)) mc)
      \<and> (\<forall>n \<in> set (map nationality (remaining_people g)).
            count_list (map nationality (remaining_people g)) n
              \<le> count_list (map nationality (remaining_people g)) mc)
      \<and> (count_list (map nationality (remaining_people g)) mc \<le> 1 \<longrightarrow>
            ask_nationality_question g c = Inr (g, c))
      \<and> (count_list (map nationality (remaining_people g)) mc > 1 \<longrightarrow>
            (\<forall>g' c'. ask_nationality_question g c = Inr (g', c') \<longrightarrow>
               answered (AskNationality mc) g c g' c')
          \<and> (\<forall>l ls. stdin c = l # ls \<longrightarrow>
               (upper (strip l) = ''Y'' \<longrightarrow>
                  ask_nationality_question g c =
                    Inr (g\<lparr>remaining_people :=
                             filter_list (\<lambda>p. nationality p = mc) (remaining_people g),
                           questions_asked := questions_asked g + 1\<rparr>,
                         c\<lparr>stdin := ls, stdout := stdout c @ [Prompt (AskNationality mc)]\<rparr>))
             \<and> (upper (strip l) = ''N'' \<longrightarrow>
                  ask_nationality_question g c =
                    Inr (g\<lparr>remaining_people :=
                             filter_list (\<lambda>p. nationality p \<noteq> mc) (remaining_people g),
                           questions_asked := questions_asked g + 1\<rparr>,
                         c\<lparr>stdin := ls,
                           stdout := stdout c @ [Prompt (AskNationality mc)]\<rparr>))))))"
proof (intro conjI impI)
  assume "length (remaining_people g) \<le> 2"
  then show "ask_nationality_question g c = Inr (g, c)"
    by (simp add: ask_nationality_question_def)
next
  let ?ps = "remaining_people g"
  let ?nats = "map nationality ?ps"
  assume len: "length ?ps > 2"
  then have "?ps \<noteq> []" by auto
  from most_common_first_greatest [OF this] obtain mc pre post where
    mc: "most_common ?ps = Inr mc" and
    split: "?nats = pre @ mc # post" and
    before: "\<forall>n \<in> set pre. count_list ?nats n < count_list ?nats mc" and
    all: "\<forall>n \<in> set ?nats. count_list ?nats n \<le> count_list ?nats mc" and
    item: "dict_item (count_nationalities ?ps) mc = int (count_list ?nats mc)"
    by blast
  have skip: "ask_nationality_question g c = Inr (g, c)" if "count_list ?nats mc \<le> 1"
    using that len mc item by (simp add: ask_nationality_question_def)
  have ask: "ask_nationality_question g c = ask_nationality_loop mc g c"
    if "count_list ?nats mc > 1"
    using that len mc item by (simp add: ask_nationality_question_def)
  have 1: "count_list ?nats mc \<le> 1 \<longrightarrow> ask_nationality_question g c = Inr (g, c)"
    using skip by blast
  have 2: "count_list ?nats mc > 1 \<longrightarrow>
       (\<forall>g' c'. ask_nationality_question g c = Inr (g', c') \<longrightarrow>
          answered (AskNationality mc) g c g' c')
     \<and> (\<forall>l ls. stdin c = l # ls \<longrightarrow>
          (upper (strip l) = ''Y'' \<longrightarrow>
             ask_nationality_question g c =
               Inr (g\<lparr>remaining_people := filter_list (\<lambda>p. nationality p = mc) ?ps,
                      questions_asked := questions_asked g + 1\<rparr>,
                    c\<lparr>stdin := ls, stdout := stdout c @ [Prompt (AskNationality mc)]\<rparr>))
        \<and> (upper (strip l) = ''N'' \<longrightarrow>
             ask_nationality_question g c =
               Inr (g\<lparr>remaining_people := filter_list (\<lambda>p. nationality p \<noteq> mc) ?ps,
                      questions_asked := questions_asked g + 1\<rparr>,
                    c\<lparr>stdin := ls, stdout := stdout c @ [Prompt (AskNationality mc)]\<rparr>)))"
    using ask ask_nationality_loop_answered [of mc g c]
      ask_nationality_loop_yes [of c _ _ mc g] ask_nationality_loop_no [of c _ _ mc g]
    by auto
  from mc split before all 1 2
  show "\<exists>mc pre post.
        most_common ?ps = Inr mc
      \<and> ?nats = pre @ mc # post
      \<and> (\<forall>n \<in> set pre. count_list ?nats n < count_list ?nats mc)
      \<and> (\<forall>n \<in> set ?nats. count_list ?nats n \<le> count_list ?nats mc)
      \<and> (count_list ?nats mc \<le> 1 \<longrightarrow> ask_nationality_question g c = Inr (g, c))
      \<and> (count_list ?nats mc > 1 \<longrightarrow>
            (\<forall>g' c'. ask_nationality_question g c = Inr (g', c') \<longrightarrow>
               answered (AskNationality mc) g c g' c')
          \<and> (\<forall>l ls. stdin c = l # ls \<longrightarrow>
               (upper (strip l) = ''Y'' \<longrightarrow>
                  ask_nationality_question g c =
                    Inr (g\<lparr>remaining_people := filter_list (\<lambda>p. nationality p = mc) ?ps,
                           questions_asked := questions_asked g + 1\<rparr>,
                         c\<lparr>stdin := ls, stdout := stdout c @ [Prompt (AskNationality mc)]\<rparr>))
             \<and> (upper (strip l) = ''N'' \<longrightarrow>
                  ask_nationality_question g c =
                    Inr (g\<lparr>remaining_people := filter_list (\<lambda>p. nationality p \<noteq> mc) ?ps,
                           questions_asked := questions_asked g + 1\<rparr>,
                         c\<lparr>stdin := ls,
                           stdout := stdout c @ [Prompt (AskNationality mc)]\<rparr>))))"
    by blast
qed

text \<open>India and USA both occur twice among the four candidates and India is met first:
  the question names India. Among the three players every nationality occurs once: no
  question.\<close>

theorem nationality_question_most_common_witness:
  "length (remaining_people (game_on tied_four)) > 2
   \<and> most_common (remaining_people (game_on tied_four)) = Inr ''India''
   \<and> ask_nationality_question (game_on tied_four) (typing [''n'']) =
       Inr (game_on tied_four
              \<lparr>remaining_people :=
                 filter_list (\<lambda>p. nationality p \<noteq> ''India'') (remaining_people (game_on tied_four)),
               questions_asked := questions_asked (game_on tied_four) + 1\<rparr>,
            typing [''n'']\<lparr>stdin := [], stdout := [Prompt (AskNationality ''India'')]\<rparr>)
   \<and> length (remaining_people (game_on three_players)) > 2
   \<and> ask_nationality_question (game_on three_players) (typing [''y''])
       = Inr (game_on three_players, typing [''y''])
   \<and> ask_nationality_question (game_on [federer, nadal]) (typing [''y''])
       = Inr (game_on [federer, nadal], typing [''y''])"
proof -
  let ?g = "game_on tied_four" and ?c = "typing [''n'']"
  let ?nats = "map nationality (remaining_people ?g)"
  have len: "length (remaining_people ?g) > 2" by code_simp
  have india: "most_common (remaining_people ?g) = Inr ''India''" by code_simp
  have twice: "count_list ?nats ''India'' > 1" by code_simp
  have c: "stdin ?c = ''n'' # []" "stdout ?c = []" by (simp_all add: typing_def)
  have n: "upper (strip ''n'') = ''N''" by code_simp
  from nationality_question_most_common [of ?g ?c] len obtain mc where
    mc: "most_common (remaining_people ?g) = Inr mc" and
    ask: "count_list ?nats mc > 1 \<longrightarrow>
      (\<forall>l ls. stdin ?c = l # ls \<longrightarrow>
         (upper (strip l) = ''N'' \<longrightarrow>
            ask_nationality_question ?g ?c =
              Inr (?g\<lparr>remaining_people :=
                        filter_list (\<lambda>p. nationality p \<noteq> mc) (remaining_people ?g),
                      questions_asked := questions_asked ?g + 1\<rparr>,
                   ?c\<lparr>stdin := ls, stdout := stdout ?c @ [Prompt (AskNationality mc)]\<rparr>)))"
    by blast
  from mc india have "mc = ''India''" by simp
  with ask twice c n have 1: "ask_nationality_question ?g ?c =
      Inr (?g\<lparr>remaining_people :=
                filter_list (\<lambda>p. nationality p \<noteq> ''India'') (remaining_people ?g),
              questions_asked := questions_asked ?g + 1\<rparr>,
           ?c\<lparr>stdin := [], stdout := [Prompt (AskNationality ''India'')]\<rparr>)"
    by simp
  let ?h = "game_on three_players" and ?d = "typing [''y'']"
  let ?nats3 = "map nationality (remaining_people ?h)"
  have len3: "length (remaining_people ?h) > 2" by code_simp
  have once: "\<forall>n \<in> set ?nats3. count_list ?nats3 n \<le> 1" by code_simp
  from nationality_question_most_common [of ?h ?d] len3 obtain mc3 pre3 post3 where
    split3: "?nats3 = pre3 @ mc3 # post3" and
    skip: "count_list ?nats3 mc3 \<le> 1 \<longrightarrow> ask_nationality_question ?h ?d = Inr (?h, ?d)"
    by blast
  from split3 have "mc3 \<in> set ?nats3" by (metis in_set_conv_decomp)
  with once skip have 2: "ask_nationality_question ?h ?d = Inr (?h, ?d)" by blast
  have len2: "length (remaining_people (game_on [federer, nadal])) \<le> 2"
    by (simp add: game_on_def start_new_game_def load_people_def init_game_def)
  with nationality_question_most_common [of "game_on [federer, nadal]" ?d]
  have 3: "ask_nationality_question (game_on [federer, nadal]) ?d
      = Inr (game_on [federer, nadal], ?d)" by blast
  from len india 1 len3 2 3 show ?thesis by blast
qed

section \<open>The follow-up questions on sports\<close>

lemma emitted_same: "emitted c c = []"
  by (simp add: emitted_def)

lemma answered_emitted:
  assumes "answered q g c g' c'"
  shows "Prompt q \<in> set (emitted c c')" and "q' \<noteq> q \<Longrightarrow> Prompt q' \<notin> set (emitted c c')"
  using assms unfolding answered_def emitted_def by auto

lemma tennis_followup_cases:
  assumes "tennis_followup g1 c1 = Inr (g2, c2)"
  shows "(Prompt AskTennis \<in> set (emitted c1 c2) \<longleftrightarrow>
            length (remaining_people g1) > 3 \<and> list_ex plays_tennis (remaining_people g1))
       \<and> Prompt AskBallSport \<notin> set (emitted c1 c2)
       \<and> questions_asked g2 =
            questions_asked g1 + (if Prompt AskTennis \<in> set (emitted c1 c2) then 1 else 0)
       \<and> (length (remaining_people g1) \<le> 3 \<longrightarrow> g2 = g1 \<and> c2 = c1)"
proof (cases "length (remaining_people g1) > 3 \<and> list_ex plays_tennis (remaining_people g1)")
  case True
  with assms have "ask_tennis_question g1 c1 = Inr (g2, c2)"
    by (simp add: tennis_followup_def)
  then have a: "answered AskTennis g1 c1 g2 c2" by (rule ask_tennis_question_answered)
  from answered_emitted [OF a] a True show ?thesis by (auto simp: answered_def)
next
  case False
  with assms have "g2 = g1" "c2 = c1" by (auto simp: tennis_followup_def split: if_splits)
  with False show ?thesis by (auto simp: emitted_same)
qed

lemma ball_sport_followup_cases:
  assumes "ball_sport_followup g2 c2 = Inr (g3, c3)"
  shows "(Prompt AskBallSport \<in> set (emitted c2 c3) \<longleftrightarrow>
            length (remaining_people g2) > 3 \<and> list_ex plays_ball_sport (remaining_people g2))
       \<and> Prompt AskTennis \<notin> set (emitted c2 c3)
       \<and> questions_asked g3 =
            questions_asked g2 + (if Prompt AskBallSport \<in> set (emitted c2 c3) then 1 else 0)
       \<and> (length (remaining_people g2) \<le> 3 \<longrightarrow> g3 = g2 \<and> c3 = c2)"
proof (cases "length (remaining_people g2) > 3
    \<and> list_ex plays_ball_sport (remaining_people g2)")
  case True
  with assms have "ask_ball_sport_question g2 c2 = Inr (g3, c3)"
    by (simp add: ball_sport_followup_def)
  then have a: "answered AskBallSport g2 c2 g3 c3" by (rule ask_ball_sport_question_answered)
  from answered_emitted [OF a] a True show ?thesis by (auto simp: answered_def)
next
  case False
  with assms have "g3 = g2" "c3 = c2"
    by (auto simp: ball_sport_followup_def split: if_splits)
  with False show ?thesis by (auto simp: emitted_same)
qed

lemma ask_sports_question_stages:
  assumes "list_ex plays_sport (remaining_people g)" and "ask_sports_question g c = Inr (g3, c3)"
  shows "\<exists>g1 c1 g2 c2. ask_sports_loop g c = Inr (g1, c1)
     \<and> tennis_followup g1 c1 = Inr (g2, c2) \<and> ball_sport_followup g2 c2 = Inr (g3, c3)"
  using assms by (auto simp: ask_sports_question_def split: sum.splits)

lemma both_followups_example:
  "case ask_sports_question (game_on tennis_five) (typing [''y'', ''y'', ''y'']) of
     Inl e \<Rightarrow> False
   | Inr (g', c') \<Rightarrow>
       Prompt AskTennis \<in> set (emitted (typing [''y'', ''y'', ''y'']) c')
       \<and> Prompt AskBallSport \<in> set (emitted (typing [''y'', ''y'', ''y'']) c')
       \<and> questions_asked g' = questions_asked (game_on tennis_five) + 3"
  by code_simp

text \<open>
  C8. Once the plays-sports question is answered, the tennis question is put exactly
  when more than three candidates remain and one of them plays tennis; then, on the
  candidates that remain after it, the ball-sport question is put exactly when more than
  three remain and one of them plays a ball sport. Each of the two counts one question
  when it is put and none when it is not, so a call counts one, two or three questions;
  with three candidates or fewer after the plays-sports answer neither is put and
  nothing more changes. Both are put in some runs.
\<close>

theorem sports_followup_questions:
  "(tennis_followup g1 c1 = Inr (g2, c2) \<longrightarrow>
      (Prompt AskTennis \<in> set (emitted c1 c2) \<longleftrightarrow>
         length (remaining_people g1) > 3 \<and> list_ex plays_tennis (remaining_people g1))
    \<and> questions_asked g2 =
         questions_asked g1 + (if Prompt AskTennis \<in> set (emitted c1 c2) then 1 else 0))
   \<and> (ball_sport_followup g2 c2 = Inr (g3, c3) \<longrightarrow>
      (Prompt AskBallSport \<in> set (emitted c2 c3) \<longleftrightarrow>
         length (remaining_people g2) > 3 \<and> list_ex plays_ball_sport (remaining_people g2))
    \<and> questions_asked g3 =
         questions_asked g2 + (if Prompt AskBallSport \<in> set (emitted c2 c3) then 1 else 0))
   \<and> (list_ex plays_sport (remaining_people g) \<and> ask_sports_question g c = Inr (g', c') \<longrightarrow>
      (\<exists>h1 d1 h2 d2.
         ask_sports_loop g c = Inr (h1, d1) \<and> answered AskSports g c h1 d1
       \<and> tennis_followup h1 d1 = Inr (h2, d2)
       \<and> ball_sport_followup h2 d2 = Inr (g', c')
       \<and> questions_asked g' = questions_asked g + 1
            + (if Prompt AskTennis \<in> set (emitted d1 d2) then 1 else 0)
            + (if Prompt AskBallSport \<in> set (emitted d2 c') then 1 else 0)
       \<and> (length (remaining_people h1) \<le> 3 \<longrightarrow> g' = h1 \<and> c' = d1)))
   \<and> (\<exists>g c g' c'. ask_sports_question g c = Inr (g', c')
        \<and> Prompt AskTennis \<in> set (emitted c c') \<and> Prompt AskBallSport \<in> set (emitted c c')
        \<and> questions_asked g' = questions_asked g + 3)"
proof (intro conjI impI)
  assume "tennis_followup g1 c1 = Inr (g2, c2)"
  from tennis_followup_cases [OF this]
  show "(Prompt AskTennis \<in> set (emitted c1 c2) \<longleftrightarrow>
         length (remaining_people g1) > 3 \<and> list_ex plays_tennis (remaining_people g1))"
    and "questions_asked g2 =
         questions_asked g1 + (if Prompt AskTennis \<in> set (emitted c1 c2) then 1 else 0)"
    by blast+
next
  assume "ball_sport_followup g2 c2 = Inr (g3, c3)"
  from ball_sport_followup_cases [OF this]
  show "(Prompt AskBallSport \<in> set (emitted c2 c3) \<longleftrightarrow>
         length (remaining_people g2) > 3 \<and> list_ex plays_ball_sport (remaining_people g2))"
    and "questions_asked g3 =
         questions_asked g2 + (if Prompt AskBallSport \<in> set (emitted c2 c3) then 1 else 0)"
    by blast+
next
  assume "list_ex plays_sport (remaining_people g) \<and> ask_sports_question g c = Inr (g', c')"
  with ask_sports_question_stages [of g c g' c'] obtain h1 d1 h2 d2 where
    1: "ask_sports_loop g c = Inr (h1, d1)" and
    2: "tennis_followup h1 d1 = Inr (h2, d2)" and
    3: "ball_sport_followup h2 d2 = Inr (g', c')" by blast
  from 1 have a: "answered AskSports g c h1 d1" by (rule ask_sports_loop_answered)
  then have q1: "questions_asked h1 = questions_asked g + 1" by (simp add: answered_def)
  note t = tennis_followup_cases [OF 2] and b = ball_sport_followup_cases [OF 3]
  from q1 t b have q: "questions_asked g' = questions_asked g + 1
      + (if Prompt AskTennis \<in> set (emitted d1 d2) then 1 else 0)
      + (if Prompt AskBallSport \<in> set (emitted d2 c') then 1 else 0)" by simp
  from t b have small: "length (remaining_people h1) \<le> 3 \<longrightarrow> g' = h1 \<and> c' = d1" by auto
  from 1 a 2 3 q small
  show "\<exists>h1 d1 h2 d2.
         ask_sports_loop g c = Inr (h1, d1) \<and> answered AskSports g c h1 d1
       \<and> tennis_followup h1 d1 = Inr (h2, d2)
       \<and> ball_sport_followup h2 d2 = Inr (g', c')
       \<and> questions_asked g' = questions_asked g + 1
            + (if Prompt AskTennis \<in> set (emitted d1 d2) then 1 else 0)
            + (if Prompt AskBallSport \<in> set (emitted d2 c') then 1 else 0)
       \<and> (length (remaining_people h1) \<le> 3 \<longrightarrow> g' = h1 \<and> c' = d1)" by blast
next
  from both_followups_example
  show "\<exists>g c g' c'. ask_sports_question g c = Inr (g', c')
        \<and> Prompt AskTennis \<in> set (emitted c c') \<and> Prompt AskBallSport \<in> set (emitted c c')
        \<and> questions_asked g' = questions_asked g + 3"
    by (auto split: sum.splits)
qed

text \<open>Five sports people, four of them tennis players, answering yes three times: all
  three questions are put. With three players only the first is.\<close>

theorem sports_followup_questions_witness:
  "(\<exists>h1 d1 h2 d2.
      ask_sports_loop (game_on tennis_five) (typing [''y'', ''y'', ''y'']) = Inr (h1, d1)
    \<and> tennis_followup h1 d1 = Inr (h2, d2)
    \<and> Prompt AskTennis \<in> set (emitted d1 d2)
    \<and> length (remaining_people h1) > 3 \<and> list_ex plays_tennis (remaining_people h1)
    \<and> questions_asked h2 = questions_asked h1 + 1)
   \<and> (\<exists>g' c'. ask_sports_question (game_on three_players) (typing [''y'', ''y'', ''y''])
         = Inr (g', c')
       \<and> ask_sports_loop (game_on three_players) (typing [''y'', ''y'', ''y'']) = Inr (g', c')
       \<and> questions_asked g' = questions_asked (game_on three_players) + 1)"
proof -
  let ?g = "game_on tennis_five" and ?c = "typing [''y'', ''y'', ''y'']"
  have "case ask_sports_loop ?g ?c of Inl e \<Rightarrow> False
    | Inr (h1, d1) \<Rightarrow> length (remaining_people h1) > 3 \<and> list_ex plays_tennis (remaining_people h1)
        \<and> \<not> isl (tennis_followup h1 d1)" by code_simp
  then obtain h1 d1 h2 d2 where 1: "ask_sports_loop ?g ?c = Inr (h1, d1)"
    and 2: "length (remaining_people h1) > 3 \<and> list_ex plays_tennis (remaining_people h1)"
    and 3: "tennis_followup h1 d1 = Inr (h2, d2)"
    by (auto split: sum.splits simp: isl_def) (metis old.sum.exhaust surj_pair sum.disc(1))
  from sports_followup_questions [where ?g1.0 = h1 and ?c1.0 = d1 and ?g2.0 = h2 and ?c2.0 = d2]
    2 3
  have 4: "Prompt AskTennis \<in> set (emitted d1 d2) \<and> questions_asked h2 = questions_asked h1 + 1"
    by auto
  let ?h = "game_on three_players"
  have sp: "list_ex plays_sport (remaining_people ?h)" by code_simp
  have "\<not> isl (ask_sports_question ?h ?c)" by code_simp
  then obtain g' c' where 5: "ask_sports_question ?h ?c = Inr (g', c')"
    by (cases "ask_sports_question ?h ?c") auto
  from sports_followup_questions [where g = ?h and c = ?c and g' = g' and c' = c'] sp 5
  obtain k1 e1 where 6: "ask_sports_loop ?h ?c = Inr (k1, e1)"
    and 7: "answered AskSports ?h ?c k1 e1"
    and 8: "length (remaining_people k1) \<le> 3 \<longrightarrow> g' = k1 \<and> c' = e1" by blast
  have "length (remaining_people ?h) \<le> 3" by code_simp
  with 7 have "length (remaining_people k1) \<le> 3"
    unfolding answered_def by (meson list_emb_length order_trans)
  with 6 7 8 have 9: "ask_sports_loop ?h ?c = Inr (g', c')
      \<and> questions_asked g' = questions_asked ?h + 1"
    by (simp add: answered_def)
  from 1 2 3 4 5 9 show ?thesis by blast
qed

section \<open>The question stage of a round\<close>

lemma play_round_question_stage:
  assumes "length (remaining_people g) > 1" and "questions_asked g < max_questions g"
  shows "play_round g c =
    (case ask_by_size g (print (round_header g) c) of
       Inl e \<Rightarrow> Inl e | Inr (g1, c1) \<Rightarrow> Inr (True, g1, c1))"
  using assms by (simp add: play_round_proceeds round_header_def)

lemma stdin_print: "stdin (print e c) = stdin c"
  by (simp add: print_def)

lemma round_gender:
  assumes "length (remaining_people g) > 1" and "questions_asked g < max_questions g"
    and "length (remaining_people g) > 20"
    and "stdin c = l # ls" and "upper (strip l) = a" and "a \<in> set [''M'', ''F'']"
  shows "play_round g c =
    Inr (True,
         g\<lparr>remaining_people := filter_list (\<lambda>p. gender p = a) (remaining_people g),
           questions_asked := questions_asked g + 1\<rparr>,
         c\<lparr>stdin := ls,
           stdout := stdout c @ [round_header g, Prompt AskGender,
             RemainingPossibilities
               (int (length (filter_list (\<lambda>p. gender p = a) (remaining_people g))))]\<rparr>)"
proof -
  from assms(4) have "stdin (print (round_header g) c) = l # ls" by (simp add: stdin_print)
  from ask_gender_question_valid [OF this assms(5,6), of g] assms(1-3) show ?thesis
    by (simp add: play_round_question_stage ask_by_size_def print_def)
qed

lemma round_entertainment_no:
  assumes "length (remaining_people g) > 1" and "questions_asked g < max_questions g"
    and "10 < length (remaining_people g) \<and> length (remaining_people g) \<le> 20"
    and "stdin c = l # ls" and "upper (strip l) = ''N''"
  shows "play_round g c =
    Inr (True,
         g\<lparr>remaining_people := filter_list (\<lambda>p. \<not> is_in_entertainment p) (remaining_people g),
           questions_asked := questions_asked g + 1\<rparr>,
         c\<lparr>stdin := ls, stdout := stdout c @ [round_header g, Prompt AskEntertainment]\<rparr>)"
proof -
  from assms(4) have "stdin (print (round_header g) c) = l # ls" by (simp add: stdin_print)
  from ask_entertainment_question_no [OF this assms(5), of g] assms(1-3) show ?thesis
    by (simp add: play_round_question_stage ask_by_size_def print_def)
qed

lemma round_entertainment_yes:
  assumes "length (remaining_people g) > 1" and "questions_asked g < max_questions g"
    and "10 < length (remaining_people g) \<and> length (remaining_people g) \<le> 20"
    and "stdin c = l # ls" and "upper (strip l) = ''Y''"
  shows "play_round g c =
    (case (if list_ex plays_sport
                (filter_list (\<lambda>p. is_in_entertainment p) (remaining_people g))
           then ask_sports_question
                  (g\<lparr>remaining_people :=
                       filter_list (\<lambda>p. is_in_entertainment p) (remaining_people g),
                     questions_asked := questions_asked g + 1\<rparr>)
                  (c\<lparr>stdin := ls,
                     stdout := stdout c @ [round_header g, Prompt AskEntertainment]\<rparr>)
           else ask_film_vs_music_question
                  (g\<lparr>remaining_people :=
                       filter_list (\<lambda>p. is_in_entertainment p) (remaining_people g),
                     questions_asked := questions_asked g + 1\<rparr>)
                  (c\<lparr>stdin := ls,
                     stdout := stdout c @ [round_header g, Prompt AskEntertainment]\<rparr>)) of
       Inl e \<Rightarrow> Inl e
     | Inr (g1, c1) \<Rightarrow> Inr (True, g1, c1))"
proof -
  from assms(4) have "stdin (print (round_header g) c) = l # ls" by (simp add: stdin_print)
  from ask_entertainment_question_yes [OF this assms(5), of g] assms(1-3) show ?thesis
    by (simp add: play_round_question_stage ask_by_size_def print_def)
qed

lemma round_nationality:
  assumes "length (remaining_people g) > 1" and "questions_asked g < max_questions g"
    and "5 < length (remaining_people g) \<and> length (remaining_people g) \<le> 10"
  shows "\<exists>mc. most_common (remaining_people g) = Inr mc
    \<and> (count_list (map nationality (remaining_people g)) mc \<le> 1 \<longrightarrow>
         play_round g c = Inr (True, g, print (round_header g) c))
    \<and> (count_list (map nationality (remaining_people g)) mc > 1 \<longrightarrow>
         (\<forall>l ls. stdin c = l # ls \<longrightarrow>
            (upper (strip l) = ''Y'' \<longrightarrow>
               play_round g c =
                 Inr (True,
                      g\<lparr>remaining_people :=
                           filter_list (\<lambda>p. nationality p = mc) (remaining_people g),
                        questions_asked := questions_asked g + 1\<rparr>,
                      c\<lparr>stdin := ls,
                        stdout := stdout c @ [round_header g, Prompt (AskNationality mc)]\<rparr>))
          \<and> (upper (strip l) = ''N'' \<longrightarrow>
               play_round g c =
                 Inr (True,
                      g\<lparr>remaining_people :=
                           filter_list (\<lambda>p. nationality p \<noteq> mc) (remaining_people g),
                        questions_asked := questions_asked g + 1\<rparr>,
                      c\<lparr>stdin := ls,
                        stdout := stdout c @ [round_header g, Prompt (AskNationality mc)]\<rparr>))))"
proof -
  let ?c = "print (round_header g) c"
  from assms(3) have "length (remaining_people g) > 2" by simp
  from ask_nationality_question_cases [OF this] obtain mc where
    mc: "most_common (remaining_people g) = Inr mc" and
    skip: "\<And>c. count_list (map nationality (remaining_people g)) mc \<le> 1 \<Longrightarrow>
           ask_nationality_question g c = Inr (g, c)" and
    ask: "\<And>c. count_list (map nationality (remaining_people g)) mc > 1 \<Longrightarrow>
           ask_nationality_question g c = ask_nationality_loop mc g c" by blast
  have stage: "play_round g c =
      (case ask_nationality_question g ?c of
         Inl e \<Rightarrow> Inl e | Inr (g1, c1) \<Rightarrow> Inr (True, g1, c1))"
    using assms by (simp add: play_round_question_stage ask_by_size_def)
  have 1: "play_round g c = Inr (True, g, ?c)"
    if "count_list (map nationality (remaining_people g)) mc \<le> 1"
    using skip [OF that, of ?c] by (simp add: stage)
  have 2: "play_round g c =
      Inr (True,
           g\<lparr>remaining_people := filter_list (\<lambda>p. nationality p = mc) (remaining_people g),
             questions_asked := questions_asked g + 1\<rparr>,
           c\<lparr>stdin := ls, stdout := stdout c @ [round_header g, Prompt (AskNationality mc)]\<rparr>)"
    if "count_list (map nationality (remaining_people g)) mc > 1" "stdin c = l # ls"
      "upper (strip l) = ''Y''" for l ls
  proof -
    from that(2) have "stdin ?c = l # ls" by (simp add: stdin_print)
    from ask_nationality_loop_yes [OF this that(3), of mc g] ask [OF that(1), of ?c]
    show ?thesis by (simp add: stage print_def)
  qed
  have 3: "play_round g c =
      Inr (True,
           g\<lparr>remaining_people := filter_list (\<lambda>p. nationality p \<noteq> mc) (remaining_people g),
             questions_asked := questions_asked g + 1\<rparr>,
           c\<lparr>stdin := ls, stdout := stdout c @ [round_header g, Prompt (AskNationality mc)]\<rparr>)"
    if "count_list (map nationality (remaining_people g)) mc > 1" "stdin c = l # ls"
      "upper (strip l) = ''N''" for l ls
  proof -
    from that(2) have "stdin ?c = l # ls" by (simp add: stdin_print)
    from ask_nationality_loop_no [OF this that(3), of mc g] ask [OF that(1), of ?c]
    show ?thesis by (simp add: stage print_def)
  qed
  from mc 1 2 3 show ?thesis by blast
qed

lemma round_age:
  assumes "length (remaining_people g) > 1" and "questions_asked g < max_questions g"
    and "2 < length (remaining_people g) \<and> length (remaining_people g) \<le> 5"
    and "stdin c = l # ls"
  shows "(upper (strip l) = ''Y'' \<longrightarrow>
      play_round g c =
        Inr (True,
             g\<lparr>remaining_people := filter_list (\<lambda>p. age p > 40) (remaining_people g),
               questions_asked := questions_asked g + 1\<rparr>,
             c\<lparr>stdin := ls, stdout := stdout c @ [round_header g, Prompt AskAge]\<rparr>))
    \<and> (upper (strip l) = ''N'' \<longrightarrow>
      play_round g c =
        Inr (True,
             g\<lparr>remaining_people := filter_list (\<lambda>p. age p \<le> 40) (remaining_people g),
               questions_asked := questions_asked g + 1\<rparr>,
             c\<lparr>stdin := ls, stdout := stdout c @ [round_header g, Prompt AskAge]\<rparr>))"
proof -
  from assms(4) have c: "stdin (print (round_header g) c) = l # ls" by (simp add: stdin_print)
  have stage: "play_round g c =
      (case ask_age_loop g (print (round_header g) c) of
         Inl e \<Rightarrow> Inl e | Inr (g1, c1) \<Rightarrow> Inr (True, g1, c1))"
    using assms(1-3) by (simp add: play_round_question_stage ask_by_size_def ask_age_question_def)
  show ?thesis
    using ask_age_loop_yes [OF c, of g] ask_age_loop_no [OF c, of g]
    by (auto simp: stage print_def)
qed

lemma round_two:
  assumes "length (remaining_people g) = 2" and "questions_asked g < max_questions g"
  shows "play_round g c = Inr (True, g, print (round_header g) c)"
  using assms
  by (simp add: play_round_question_stage ask_by_size_def ask_age_question_def)

text \<open>
  C3, as the code has it. A round that is not ended by a terminal check prints the round
  header and then runs one step chosen by the number of candidates: above 20 the gender
  question, keeping the candidates of the gender answered; from 11 to 20 the
  entertainment question, which on \<open>N\<close> keeps those outside entertainment and on \<open>Y\<close> keeps
  those inside and goes on, in the same round, to the sports questions when one of them
  plays sport and to the film-or-music question otherwise; from 6 to 10 the nationality
  step, which puts its question only when the most common nationality occurs more than
  once; from 3 to 5 the age question, where \<open>Y\<close> keeps age above 40 and \<open>N\<close> age at most
  40. With exactly two candidates nothing is asked: both the nationality step and the age
  step return at once for two candidates or fewer.
\<close>

theorem question_by_size:
  assumes "length (remaining_people g) > 1" and "questions_asked g < max_questions g"
  shows
  "(length (remaining_people g) > 20 \<longrightarrow>
      (\<forall>l ls a. stdin c = l # ls \<and> upper (strip l) = a \<and> a \<in> set [''M'', ''F''] \<longrightarrow>
         play_round g c =
           Inr (True,
                g\<lparr>remaining_people := filter_list (\<lambda>p. gender p = a) (remaining_people g),
                  questions_asked := questions_asked g + 1\<rparr>,
                c\<lparr>stdin := ls,
                  stdout := stdout c @ [round_header g, Prompt AskGender,
                    RemainingPossibilities
                      (int (length (filter_list (\<lambda>p. gender p = a) (remaining_people g))))]\<rparr>)))
   \<and> (10 < length (remaining_people g) \<and> length (remaining_people g) \<le> 20 \<longrightarrow>
      (\<forall>l ls. stdin c = l # ls \<longrightarrow>
         (upper (strip l) = ''N'' \<longrightarrow>
            play_round g c =
              Inr (True,
                   g\<lparr>remaining_people :=
                        filter_list (\<lambda>p. \<not> is_in_entertainment p) (remaining_people g),
                     questions_asked := questions_asked g + 1\<rparr>,
                   c\<lparr>stdin := ls,
                     stdout := stdout c @ [round_header g, Prompt AskEntertainment]\<rparr>))
       \<and> (upper (strip l) = ''Y'' \<longrightarrow>
            play_round g c =
              (case (if list_ex plays_sport
                          (filter_list (\<lambda>p. is_in_entertainment p) (remaining_people g))
                     then ask_sports_question
                            (g\<lparr>remaining_people :=
                                 filter_list (\<lambda>p. is_in_entertainment p) (remaining_people g),
                               questions_asked := questions_asked g + 1\<rparr>)
                            (c\<lparr>stdin := ls,
                               stdout := stdout c @ [round_header g, Prompt AskEntertainment]\<rparr>)
                     else ask_film_vs_music_question
                            (g\<lparr>remaining_people :=
                                 filter_list (\<lambda>p. is_in_entertainment p) (remaining_people g),
                               questions_asked := questions_asked g + 1\<rparr>)
                            (c\<lparr>stdin := ls,
                               stdout := stdout c @ [round_header g, Prompt AskEntertainment]\<rparr>))
               of Inl e \<Rightarrow> Inl e
                | Inr (g1, c1) \<Rightarrow> Inr (True, g1, c1)))))
   \<and> (5 < length (remaining_people g) \<and> length (remaining_people g) \<le> 10 \<longrightarrow>
      (\<exists>mc. most_common (remaining_people g) = Inr mc
        \<and> (count_list (map nationality (remaining_people g)) mc \<le> 1 \<longrightarrow>
             play_round g c = Inr (True, g, print (round_header g) c))
        \<and> (count_list (map nationality (remaining_people g)) mc > 1 \<longrightarrow>
             (\<forall>l ls. stdin c = l # ls \<longrightarrow>
                (upper (strip l) = ''Y'' \<longrightarrow>
                   play_round g c =
                     Inr (True,
                          g\<lparr>remaining_people :=
                               filter_list (\<lambda>p. nationality p = mc) (remaining_people g),
                            questions_asked := questions_asked g + 1\<rparr>,
                          c\<lparr>stdin := ls,
                            stdout := stdout c
                              @ [round_header g, Prompt (AskNationality mc)]\<rparr>))
              \<and> (upper (strip l) = ''N'' \<longrightarrow>
                   play_round g c =
                     Inr (True,
                          g\<lparr>remaining_people :=
                               filter_list (\<lambda>p. nationality p \<noteq> mc) (remaining_people g),
                            questions_asked := questions_asked g + 1\<rparr>,
                          c\<lparr>stdin := ls,
                            stdout := stdout c
                              @ [round_header g, Prompt (AskNationality mc)]\<rparr>))))))
   \<and> (2 < length (remaining_people g) \<and> length (remaining_people g) \<le> 5 \<longrightarrow>
      (\<forall>l ls. stdin c = l # ls \<longrightarrow>
         (upper (strip l) = ''Y'' \<longrightarrow>
            play_round g c =
              Inr (True,
                   g\<lparr>remaining_people := filter_list (\<lambda>p. age p > 40) (remaining_people g),
                     questions_asked := questions_asked g + 1\<rparr>,
                   c\<lparr>stdin := ls, stdout := stdout c @ [round_header g, Prompt AskAge]\<rparr>))
       \<and> (upper (strip l) = ''N'' \<longrightarrow>
            play_round g c =
              Inr (True,
                   g\<lparr>remaining_people := filter_list (\<lambda>p. age p \<le> 40) (remaining_people g),
                     questions_asked := questions_asked g + 1\<rparr>,
                   c\<lparr>stdin := ls, stdout := stdout c @ [round_header g, Prompt AskAge]\<rparr>))))
   \<and> (length (remaining_people g) = 2 \<longrightarrow>
      play_round g c = Inr (True, g, print (round_header g) c))"
proof (intro conjI)
  show "length (remaining_people g) > 20 \<longrightarrow>
      (\<forall>l ls a. stdin c = l # ls \<and> upper (strip l) = a \<and> a \<in> set [''M'', ''F''] \<longrightarrow>
         play_round g c =
           Inr (True,
                g\<lparr>remaining_people := filter_list (\<lambda>p. gender p = a) (remaining_people g),
                  questions_asked := questions_asked g + 1\<rparr>,
                c\<lparr>stdin := ls,
                  stdout := stdout c @ [round_header g, Prompt AskGender,
                    RemainingPossibilities
                      (int (length (filter_list (\<lambda>p. gender p = a) (remaining_people g))))]\<rparr>))"
    using round_gender [OF assms, of c] by blast
next
  show "10 < length (remaining_people g) \<and> length (remaining_people g) \<le> 20 \<longrightarrow>
      (\<forall>l ls. stdin c = l # ls \<longrightarrow>
         (upper (strip l) = ''N'' \<longrightarrow>
            play_round g c =
              Inr (True,
                   g\<lparr>remaining_people :=
                        filter_list (\<lambda>p. \<not> is_in_entertainment p) (remaining_people g),
                     questions_asked := questions_asked g + 1\<rparr>,
                   c\<lparr>stdin := ls,
                     stdout := stdout c @ [round_header g, Prompt AskEntertainment]\<rparr>))
       \<and> (upper (strip l) = ''Y'' \<longrightarrow>
            play_round g c =
              (case (if list_ex plays_sport
                          (filter_list (\<lambda>p. is_in_entertainment p) (remaining_people g))
                     then ask_sports_question
                            (g\<lparr>remaining_people :=
                                 filter_list (\<lambda>p. is_in_entertainment p) (remaining_people g),
                               questions_asked := questions_asked g + 1\<rparr>)
                            (c\<lparr>stdin := ls,
                               stdout := stdout c @ [round_header g, Prompt AskEntertainment]\<rparr>)
                     else ask_film_vs_music_question
                            (g\<lparr>remaining_people :=
                                 filter_list (\<lambda>p. is_in_entertainment p) (remaining_people g),
                               questions_asked := questions_asked g + 1\<rparr>)
                            (c\<lparr>stdin := ls,
                               stdout := stdout c @ [round_header g, Prompt AskEntertainment]\<rparr>))
               of Inl e \<Rightarrow> Inl e
                | Inr (g1, c1) \<Rightarrow> Inr (True, g1, c1))))"
    using round_entertainment_no [OF assms, of c] round_entertainment_yes [OF assms, of c]
    by blast
next
  show "5 < length (remaining_people g) \<and> length (remaining_people g) \<le> 10 \<longrightarrow>
      (\<exists>mc. most_common (remaining_people g) = Inr mc
        \<and> (count_list (map nationality (remaining_people g)) mc \<le> 1 \<longrightarrow>
             play_round g c = Inr (True, g, print (round_header g) c))
        \<and> (count_list (map nationality (remaining_people g)) mc > 1 \<longrightarrow>
             (\<forall>l ls. stdin c = l # ls \<longrightarrow>
                (upper (strip l) = ''Y'' \<longrightarrow>
                   play_round g c =
                     Inr (True,
                          g\<lparr>remaining_people :=
                               filter_list (\<lambda>p. nationality p = mc) (remaining_people g),
                            questions_asked := questions_asked g + 1\<rparr>,
                          c\<lparr>stdin := ls,
                            stdout := stdout c
                              @ [round_header g, Prompt (AskNationality mc)]\<rparr>))
              \<and> (upper (strip l) = ''N'' \<longrightarrow>
                   play_round g c =
                     Inr (True,
                          g\<lparr>remaining_people :=
                               filter_list (\<lambda>p. nationality p \<noteq> mc) (remaining_people g),
                            questions_asked := questions_asked g + 1\<rparr>,
                          c\<lparr>stdin := ls,
                            stdout := stdout c
                              @ [round_header g, Prompt (AskNationality mc)]\<rparr>)))))"
    using round_nationality [OF assms, of c] by blast
next
  show "2 < length (remaining_people g) \<and> length (remaining_people g) \<le> 5 \<longrightarrow>
      (\<forall>l ls. stdin c = l # ls \<longrightarrow>
         (upper (strip l) = ''Y'' \<longrightarrow>
            play_round g c =
              Inr (True,
                   g\<lparr>remaining_people := filter_list (\<lambda>p. age p > 40) (remaining_people g),
                     questions_asked := questions_asked g + 1\<rparr>,
                   c\<lparr>stdin := ls, stdout := stdout c @ [round_header g, Prompt AskAge]\<rparr>))
       \<and> (upper (strip l) = ''N'' \<longrightarrow>
            play_round g c =
              Inr (True,
                   g\<lparr>remaining_people := filter_list (\<lambda>p. age p \<le> 40) (remaining_people g),
                     questions_asked := questions_asked g + 1\<rparr>,
                   c\<lparr>stdin := ls, stdout := stdout c @ [round_header g, Prompt AskAge]\<rparr>)))"
    using round_age [OF assms, of c] by blast
next
  show "length (remaining_people g) = 2 \<longrightarrow>
      play_round g c = Inr (True, g, print (round_header g) c)"
    using round_two [OF _ assms(2), of c] by blast
qed

theorem question_by_size_witness:
  "play_round (game_on (chess_club 21)) (typing [''m'']) =
     Inr (True,
          game_on (chess_club 21)
            \<lparr>remaining_people :=
               filter_list (\<lambda>p. gender p = ''M'') (remaining_people (game_on (chess_club 21))),
             questions_asked := questions_asked (game_on (chess_club 21)) + 1\<rparr>,
          typing [''m'']
            \<lparr>stdin := [],
             stdout := stdout (typing [''m'']) @ [round_header (game_on (chess_club 21)),
               Prompt AskGender,
               RemainingPossibilities
                 (int (length (filter_list (\<lambda>p. gender p = ''M'')
                    (remaining_people (game_on (chess_club 21))))))]\<rparr>)
   \<and> play_round (game_on (chess_club 11)) (typing [''n'']) =
     Inr (True,
          game_on (chess_club 11)
            \<lparr>remaining_people :=
               filter_list (\<lambda>p. \<not> is_in_entertainment p)
                 (remaining_people (game_on (chess_club 11))),
             questions_asked := questions_asked (game_on (chess_club 11)) + 1\<rparr>,
          typing [''n'']
            \<lparr>stdin := [],
             stdout := stdout (typing [''n''])
               @ [round_header (game_on (chess_club 11)), Prompt AskEntertainment]\<rparr>)
   \<and> play_round (game_on six_players) (typing [''y'']) =
     Inr (True,
          game_on six_players
            \<lparr>remaining_people :=
               filter_list (\<lambda>p. nationality p = ''India'') (remaining_people (game_on six_players)),
             questions_asked := questions_asked (game_on six_players) + 1\<rparr>,
          typing [''y'']
            \<lparr>stdin := [],
             stdout := stdout (typing [''y''])
               @ [round_header (game_on six_players), Prompt (AskNationality ''India'')]\<rparr>)
   \<and> play_round (game_on tennis_five) (typing [''y'']) =
     Inr (True,
          game_on tennis_five
            \<lparr>remaining_people :=
               filter_list (\<lambda>p. age p > 40) (remaining_people (game_on tennis_five)),
             questions_asked := questions_asked (game_on tennis_five) + 1\<rparr>,
          typing [''y'']
            \<lparr>stdin := [],
             stdout := stdout (typing [''y''])
               @ [round_header (game_on tennis_five), Prompt AskAge]\<rparr>)
   \<and> play_round (game_on [federer, nadal]) (typing [''y'']) =
     Inr (True, game_on [federer, nadal],
          print (round_header (game_on [federer, nadal])) (typing [''y'']))"
proof -
  have budget: "questions_asked (game_on rows) < max_questions (game_on rows)" for rows
    by (simp add: game_on_def start_new_game_def load_people_def init_game_def)
  have size: "length (remaining_people (game_on rows)) = length rows" for rows
    by (simp add: game_on_def start_new_game_def load_people_def init_game_def)
  have l21: "length (chess_club 21) = 21" and l11: "length (chess_club 11) = 11"
    and l6: "length six_players = 6" and l5: "length tennis_five = 5"
    by (simp_all add: chess_club_def six_players_def tennis_five_def)
  have m: "upper (strip ''m'') = ''M''" and n: "upper (strip ''n'') = ''N''"
    and y: "upper (strip ''y'') = ''Y''" by code_simp+
  have inp: "stdin (typing [l]) = l # []" for l by (simp add: typing_def)
  have 1: "play_round (game_on (chess_club 21)) (typing [''m'']) =
     Inr (True,
          game_on (chess_club 21)
            \<lparr>remaining_people :=
               filter_list (\<lambda>p. gender p = ''M'') (remaining_people (game_on (chess_club 21))),
             questions_asked := questions_asked (game_on (chess_club 21)) + 1\<rparr>,
          typing [''m'']
            \<lparr>stdin := [],
             stdout := stdout (typing [''m'']) @ [round_header (game_on (chess_club 21)),
               Prompt AskGender,
               RemainingPossibilities
                 (int (length (filter_list (\<lambda>p. gender p = ''M'')
                    (remaining_people (game_on (chess_club 21))))))]\<rparr>)"
    using question_by_size [where g = "game_on (chess_club 21)" and c = "typing [''m'']"]
      budget [of "chess_club 21"] size [of "chess_club 21"] l21 m inp [of "''m''"]
    by simp
  have 2: "play_round (game_on (chess_club 11)) (typing [''n'']) =
     Inr (True,
          game_on (chess_club 11)
            \<lparr>remaining_people :=
               filter_list (\<lambda>p. \<not> is_in_entertainment p)
                 (remaining_people (game_on (chess_club 11))),
             questions_asked := questions_asked (game_on (chess_club 11)) + 1\<rparr>,
          typing [''n'']
            \<lparr>stdin := [],
             stdout := stdout (typing [''n''])
               @ [round_header (game_on (chess_club 11)), Prompt AskEntertainment]\<rparr>)"
    using question_by_size [where g = "game_on (chess_club 11)" and c = "typing [''n'']"]
      budget [of "chess_club 11"] size [of "chess_club 11"] l11 n inp [of "''n''"]
    by simp
  have india: "most_common (remaining_people (game_on six_players)) = Inr ''India''"
    by code_simp
  have twice: "count_list (map nationality (remaining_people (game_on six_players))) ''India'' > 1"
    by code_simp
  from question_by_size [where g = "game_on six_players" and c = "typing [''y'']"]
    budget [of six_players] size [of six_players] l6
  obtain mc where mc: "most_common (remaining_people (game_on six_players)) = Inr mc"
    and ask: "count_list (map nationality (remaining_people (game_on six_players))) mc > 1 \<longrightarrow>
       (\<forall>l ls. stdin (typing [''y'']) = l # ls \<longrightarrow>
          (upper (strip l) = ''Y'' \<longrightarrow>
             play_round (game_on six_players) (typing [''y'']) =
               Inr (True,
                    game_on six_players
                      \<lparr>remaining_people :=
                         filter_list (\<lambda>p. nationality p = mc)
                           (remaining_people (game_on six_players)),
                       questions_asked := questions_asked (game_on six_players) + 1\<rparr>,
                    typing [''y'']
                      \<lparr>stdin := ls,
                       stdout := stdout (typing [''y''])
                         @ [round_header (game_on six_players), Prompt (AskNationality mc)]\<rparr>)))"
    by auto
  from mc india have "mc = ''India''" by simp
  with ask twice y inp [of "''y''"]
  have 3: "play_round (game_on six_players) (typing [''y'']) =
     Inr (True,
          game_on six_players
            \<lparr>remaining_people :=
               filter_list (\<lambda>p. nationality p = ''India'') (remaining_people (game_on six_players)),
             questions_asked := questions_asked (game_on six_players) + 1\<rparr>,
          typing [''y'']
            \<lparr>stdin := [],
             stdout := stdout (typing [''y''])
               @ [round_header (game_on six_players), Prompt (AskNationality ''India'')]\<rparr>)"
    by simp
  have 4: "play_round (game_on tennis_five) (typing [''y'']) =
     Inr (True,
          game_on tennis_five
            \<lparr>remaining_people :=
               filter_list (\<lambda>p. age p > 40) (remaining_people (game_on tennis_five)),
             questions_asked := questions_asked (game_on tennis_five) + 1\<rparr>,
          typing [''y'']
            \<lparr>stdin := [],
             stdout := stdout (typing [''y''])
               @ [round_header (game_on tennis_five), Prompt AskAge]\<rparr>)"
    using question_by_size [where g = "game_on tennis_five" and c = "typing [''y'']"]
      budget [of tennis_five] size [of tennis_five] l5 y inp [of "''y''"]
    by simp
  have 5: "play_round (game_on [federer, nadal]) (typing [''y'']) =
     Inr (True, game_on [federer, nadal],
          print (round_header (game_on [federer, nadal])) (typing [''y'']))"
    using question_by_size [where g = "game_on [federer, nadal]" and c = "typing [''y'']"]
      budget [of "[federer, nadal]"] size [of "[federer, nadal]"]
    by simp
  from 1 2 3 4 5 show ?thesis by blast
qed

text \<open>
  C3 as the specification words it has the age question skipped only below two
  candidates. With two candidates, of whom one is over 40, and the answer \<open>y\<close> waiting,
  the round asks nothing, reads nothing and keeps both.
\<close>

theorem age_question_not_asked_with_two_candidates:
  "length (remaining_people (game_on [federer, nadal])) = 2
   \<and> play_round (game_on [federer, nadal]) (typing [''y'']) =
       Inr (True, game_on [federer, nadal], print (RoundHeader 1 20 2) (typing [''y'']))
   \<and> Prompt AskAge \<notin> set (stdout (print (RoundHeader 1 20 2) (typing [''y''])))
   \<and> stdin (print (RoundHeader 1 20 2) (typing [''y''])) = [''y'']
   \<and> filter_list (\<lambda>p. age p > 40) (remaining_people (game_on [federer, nadal]))
       \<noteq> remaining_people (game_on [federer, nadal])"
  by code_simp

lemma nationality_all_once:
  assumes "length (remaining_people g) > 2"
    and "\<forall>n \<in> set (map nationality (remaining_people g)).
           count_list (map nationality (remaining_people g)) n \<le> 1"
  shows "ask_nationality_question g c = Inr (g, c)"
proof -
  let ?nats = "map nationality (remaining_people g)"
  from assms(1) have "remaining_people g \<noteq> []" by auto
  from most_common_first_greatest [OF this] obtain mc pre post where
    mc: "most_common (remaining_people g) = Inr mc" and
    split: "?nats = pre @ mc # post" and
    item: "dict_item (count_nationalities (remaining_people g)) mc = int (count_list ?nats mc)"
    by blast
  from split have "mc \<in> set ?nats" by (metis in_set_conv_decomp)
  with assms(2) have "count_list ?nats mc \<le> 1" by blast
  with assms(1) mc item show ?thesis by (simp add: ask_nationality_question_def)
qed

lemma nationality_some_twice:
  assumes "length (remaining_people g) > 2"
    and "\<not> (\<forall>n \<in> set (map nationality (remaining_people g)).
              count_list (map nationality (remaining_people g)) n \<le> 1)"
  shows "\<exists>mc. most_common (remaining_people g) = Inr mc
    \<and> ask_nationality_question g c = ask_nationality_loop mc g c"
proof -
  let ?nats = "map nationality (remaining_people g)"
  from assms(1) have "remaining_people g \<noteq> []" by auto
  from most_common_first_greatest [OF this] obtain mc where
    mc: "most_common (remaining_people g) = Inr mc" and
    all: "\<forall>n \<in> set ?nats. count_list ?nats n \<le> count_list ?nats mc" and
    item: "dict_item (count_nationalities (remaining_people g)) mc = int (count_list ?nats mc)"
    by blast
  from assms(2) obtain n where "n \<in> set ?nats" and "count_list ?nats n > 1" by force
  with all have "count_list ?nats mc > 1" by force
  with assms(1) mc item have "ask_nationality_question g c = ask_nationality_loop mc g c"
    by (simp add: ask_nationality_question_def)
  with mc show ?thesis by blast
qed

lemma answered_first_prompt:
  assumes "answered q g c g1 c1" and "advanced g1 c1 g2 c2"
  shows "\<exists>es. stdout c2 = stdout c @ Prompt q # es"
    and "questions_asked g2 \<ge> questions_asked g + 1"
proof -
  from assms(1) obtain es where 1: "stdout c1 = stdout c @ Prompt q # es"
    and 2: "questions_asked g1 = questions_asked g + 1"
    unfolding answered_def by blast
  from assms(2) obtain es2 where 3: "stdout c2 = stdout c1 @ es2"
    and 4: "questions_asked g1 \<le> questions_asked g2"
    unfolding advanced_def by (auto elim: prefixE)
  from 1 3 show "\<exists>es. stdout c2 = stdout c @ Prompt q # es" by simp
  from 2 4 show "questions_asked g2 \<ge> questions_asked g + 1" by simp
qed

text \<open>Outside the two situations of \<open>asks_nothing\<close> the question stage puts a question,
  the one its tier prescribes, unless the input has ended.\<close>

lemma ask_by_size_asks:
  assumes "length (remaining_people g) > 1" and "\<not> asks_nothing g"
    and "ask_by_size g c = Inr (g1, c1)"
  shows "\<exists>q es. first_question g q \<and> stdout c1 = stdout c @ Prompt q # es
    \<and> questions_asked g1 \<ge> questions_asked g + 1"
proof -
  from assms(1,2) have big: "length (remaining_people g) > 2"
    by (simp add: asks_nothing_def)
  consider (gender) "length (remaining_people g) > 20"
    | (ent) "\<not> length (remaining_people g) > 20" "length (remaining_people g) > 10"
    | (nat) "\<not> length (remaining_people g) > 10" "length (remaining_people g) > 5"
    | (age) "\<not> length (remaining_people g) > 5" by linarith
  then show ?thesis
  proof cases
    case gender
    with assms(3) have "ask_gender_question g c = Inr (g1, c1)" by (simp add: ask_by_size_def)
    then have "answered AskGender g c g1 c1" by (rule ask_gender_question_answered)
    from answered_first_prompt [OF this advanced_refl] gender show ?thesis
      by (auto simp: first_question_def)
  next
    case ent
    with assms(3) obtain t g2 c2 where
      1: "ask_entertainment_question g c = Inr (t, g2, c2)" and
      2: "(if t = ''entertainment'' then
             (if list_ex plays_sport (remaining_people g2)
              then ask_sports_question g2 c2 else ask_film_vs_music_question g2 c2)
           else Inr (g2, c2)) = Inr (g1, c1)"
      by (auto simp: ask_by_size_def split: sum.splits)
    from 1 have a: "answered AskEntertainment g c g2 c2"
      by (rule ask_entertainment_question_answered)
    from 2 have "advanced g2 c2 g1 c1"
      by (auto split: if_splits simp: advanced_refl
          dest: ask_sports_question_advanced ask_film_vs_music_question_answered
            answered_advanced)
    from answered_first_prompt [OF a this] ent show ?thesis
      by (auto simp: first_question_def)
  next
    case nat
    with assms(2) have "\<not> (\<forall>n \<in> set (map nationality (remaining_people g)).
        count_list (map nationality (remaining_people g)) n \<le> 1)"
      by (simp add: asks_nothing_def)
    from nationality_some_twice [OF big this, of c] obtain mc where
      mc: "most_common (remaining_people g) = Inr mc" and
      ask: "ask_nationality_question g c = ask_nationality_loop mc g c" by blast
    from assms(3) nat ask have "ask_nationality_loop mc g c = Inr (g1, c1)"
      by (simp add: ask_by_size_def)
    then have "answered (AskNationality mc) g c g1 c1" by (rule ask_nationality_loop_answered)
    from answered_first_prompt [OF this advanced_refl] nat mc show ?thesis
      by (auto simp: first_question_def)
  next
    case age
    with assms(3) big have "ask_age_loop g c = Inr (g1, c1)"
      by (simp add: ask_by_size_def ask_age_question_def)
    then have "answered AskAge g c g1 c1" by (rule ask_age_loop_answered)
    from answered_first_prompt [OF this advanced_refl] age show ?thesis
      by (auto simp: first_question_def)
  qed
qed

lemma play_round_asks_nothing:
  assumes "length (remaining_people g) > 1" and "questions_asked g < max_questions g"
    and "asks_nothing g"
  shows "play_round g c = Inr (True, g, print (round_header g) c)"
proof (cases "length (remaining_people g) = 2")
  case True
  from round_two [OF this assms(2)] show ?thesis .
next
  case False
  with assms(3) have tier: "5 < length (remaining_people g)" "length (remaining_people g) \<le> 10"
    and once: "\<forall>n \<in> set (map nationality (remaining_people g)).
      count_list (map nationality (remaining_people g)) n \<le> 1"
    by (auto simp: asks_nothing_def)
  from tier have "length (remaining_people g) > 2" by simp
  from nationality_all_once [OF this once, of "print (round_header g) c"] tier assms(1,2)
  show ?thesis by (simp add: play_round_question_stage ask_by_size_def)
qed

lemma play_round_asks:
  assumes "length (remaining_people g) > 1" and "questions_asked g < max_questions g"
    and "\<not> asks_nothing g"
  shows "play_round g c = Inl EOFError
    \<or> (\<exists>g1 c1 q es. play_round g c = Inr (True, g1, c1) \<and> first_question g q
          \<and> stdout c1 = stdout c @ round_header g # Prompt q # es
          \<and> questions_asked g1 \<ge> questions_asked g + 1)"
proof (cases "ask_by_size g (print (round_header g) c)")
  case (Inl e)
  with assms(1,2) have "play_round g c = Inl e" by (simp add: play_round_question_stage)
  with play_round_error [of g c e] show ?thesis by simp
next
  case (Inr r)
  obtain g1 c1 where r: "r = (g1, c1)" by (cases r)
  from Inr r assms(1,2) have 1: "play_round g c = Inr (True, g1, c1)"
    by (simp add: play_round_question_stage)
  from Inr r have "ask_by_size g (print (round_header g) c) = Inr (g1, c1)" by simp
  from ask_by_size_asks [OF assms(1,3) this] obtain q es where
    "first_question g q" and "stdout c1 = stdout (print (round_header g) c) @ Prompt q # es"
    and "questions_asked g1 \<ge> questions_asked g + 1" by blast
  with 1 show ?thesis by (auto simp: print_def)
qed

text \<open>
  C2 as the specification words it has every round that passes the three terminal
  checks go on with a question. With six candidates of six nationalities, the counter
  at 0 and the answer \<open>y\<close> waiting, the round passes the three checks, prints its header
  and puts no question: nothing more is written and the answer is not read.
\<close>

theorem round_without_question:
  "length (remaining_people (game_on six_nations)) = 6
   \<and> questions_asked (game_on six_nations) = 0
   \<and> max_questions (game_on six_nations) = 20
   \<and> play_round (game_on six_nations) (typing [''y'']) =
       Inr (True, game_on six_nations, \<lparr>stdin = [''y''], stdout = [RoundHeader 1 20 6]\<rparr>)"
  by code_simp

text \<open>
  C2, as the code has it. A round first checks, in this order: one candidate left, and
  the session ends by naming that candidate and the number of questions; no candidate
  left, and it ends with the no-match message; the counter at the budget or beyond, and
  it ends by listing the names of the candidates left, in their order. Each earlier
  check wins over the later ones: a single candidate is named even when the budget is
  spent. Only otherwise does the round print its header and run its question stage.
  That stage puts no question when exactly two candidates remain, or when six to ten
  remain and no two share a nationality: the round then changes nothing. In every other
  case it puts the question of its tier right after the header and counts at least one
  question, unless the input ends first. The budget of a new game is 20.
\<close>

theorem play_round_terminal_checks:
  "(remaining_people g = [p] \<longrightarrow>
      play_round g c = Inr (False, g, print (Solved (name p) (questions_asked g)) c))
   \<and> (remaining_people g = [] \<longrightarrow> play_round g c = Inr (False, g, print NoMatch c))
   \<and> (length (remaining_people g) > 1 \<and> questions_asked g \<ge> max_questions g \<longrightarrow>
      play_round g c =
        Inr (False, g, print (OutOfQuestions (map name (remaining_people g))) c))
   \<and> (length (remaining_people g) > 1 \<and> questions_asked g < max_questions g \<longrightarrow>
      (asks_nothing g \<longrightarrow> play_round g c = Inr (True, g, print (round_header g) c))
    \<and> (\<not> asks_nothing g \<longrightarrow>
         play_round g c = Inl EOFError
         \<or> (\<exists>g1 c1 q es. play_round g c = Inr (True, g1, c1) \<and> first_question g q
               \<and> stdout c1 = stdout c @ round_header g # Prompt q # es
               \<and> questions_asked g1 \<ge> questions_asked g + 1)))
   \<and> max_questions init_game = 20
   \<and> max_questions (fst (snd (start_new_game db init_game c))) = 20"
proof -
  have "play_round g c = Inr (False, g, print (Solved (name p) (questions_asked g)) c)"
    if "remaining_people g = [p]"
    using that by (simp add: play_round_def)
  moreover have "play_round g c = Inr (False, g, print NoMatch c)"
    if "remaining_people g = []"
    using that by (simp add: play_round_def)
  moreover have "play_round g c =
      Inr (False, g, print (OutOfQuestions (map name (remaining_people g))) c)"
    if "length (remaining_people g) > 1 \<and> questions_asked g \<ge> max_questions g"
    using that by (auto simp: play_round_def)
  moreover have "play_round g c = Inr (True, g, print (round_header g) c)"
    if "length (remaining_people g) > 1 \<and> questions_asked g < max_questions g"
      and "asks_nothing g"
    using that play_round_asks_nothing [of g c] by blast
  moreover have "play_round g c = Inl EOFError
      \<or> (\<exists>g1 c1 q es. play_round g c = Inr (True, g1, c1) \<and> first_question g q
            \<and> stdout c1 = stdout c @ round_header g # Prompt q # es
            \<and> questions_asked g1 \<ge> questions_asked g + 1)"
    if "length (remaining_people g) > 1 \<and> questions_asked g < max_questions g"
      and "\<not> asks_nothing g"
    using that play_round_asks [of g c] by blast
  moreover have "max_questions init_game = 20" by (simp add: init_game_def)
  moreover have "max_questions (fst (snd (start_new_game db init_game c))) = 20"
    by (cases db) (simp_all add: start_new_game_def load_people_def init_game_def Let_def)
  ultimately show ?thesis by blast
qed

theorem play_round_terminal_checks_witness:
  "play_round (game_on [federer]\<lparr>questions_asked := 25\<rparr>) (typing []) =
     Inr (False, game_on [federer]\<lparr>questions_asked := 25\<rparr>,
          print (Solved ''Roger Federer'' 25) (typing []))
   \<and> play_round (game_on []) (typing []) = Inr (False, game_on [], print NoMatch (typing []))
   \<and> play_round (game_on three_players\<lparr>questions_asked := 20\<rparr>) (typing []) =
     Inr (False, game_on three_players\<lparr>questions_asked := 20\<rparr>,
          print (OutOfQuestions [''Roger Federer'', ''Rafael Nadal'', ''Serena Williams''])
            (typing []))
   \<and> asks_nothing (game_on six_nations)
   \<and> play_round (game_on six_nations) (typing [''y'']) =
     Inr (True, game_on six_nations, print (round_header (game_on six_nations)) (typing [''y'']))
   \<and> \<not> asks_nothing (game_on three_players)
   \<and> (\<exists>g1 c1 es. play_round (game_on three_players) (typing [''n'']) = Inr (True, g1, c1)
        \<and> stdout c1 = RoundHeader 1 20 3 # Prompt AskAge # es
        \<and> questions_asked g1 \<ge> 1)"
proof -
  let ?one = "game_on [federer]\<lparr>questions_asked := 25\<rparr>"
  let ?spent = "game_on three_players\<lparr>questions_asked := 20\<rparr>"
  let ?three = "game_on three_players"
  let ?six = "game_on six_nations"
  have one: "remaining_people ?one = [from_tuple federer]"
    by (simp add: game_on_def start_new_game_def load_people_def init_game_def)
  have name: "name (from_tuple federer) = ''Roger Federer''" by code_simp
  have none: "remaining_people (game_on []) = []"
    by (simp add: game_on_def start_new_game_def load_people_def init_game_def)
  have spent: "length (remaining_people ?spent) > 1 \<and> questions_asked ?spent \<ge> max_questions ?spent"
    by (simp add: game_on_def start_new_game_def load_people_def init_game_def
        three_players_def)
  have names: "map name (remaining_people ?spent) =
      [''Roger Federer'', ''Rafael Nadal'', ''Serena Williams'']" by code_simp
  have three: "length (remaining_people ?three) > 1
      \<and> questions_asked ?three < max_questions ?three"
    by (simp add: game_on_def start_new_game_def load_people_def init_game_def
        three_players_def)
  have six: "length (remaining_people ?six) > 1 \<and> questions_asked ?six < max_questions ?six"
    by (simp add: game_on_def start_new_game_def load_people_def init_game_def
        six_nations_def)
  have hdr: "round_header ?three = RoundHeader 1 20 3"
    by (simp add: round_header_def game_on_def start_new_game_def load_people_def
        init_game_def three_players_def)
  have first: "first_question ?three q \<longleftrightarrow> q = AskAge" for q
    by (simp add: first_question_def game_on_def start_new_game_def load_people_def
        init_game_def three_players_def)
  have quiet: "asks_nothing ?six" by code_simp
  have loud: "\<not> asks_nothing ?three" by code_simp
  have ok: "\<not> isl (play_round ?three (typing [''n'']))" by code_simp
  have out: "stdout (typing [''n'']) = []" by (simp add: typing_def)
  from play_round_terminal_checks [where g = ?one and c = "typing []"
      and p = "from_tuple federer"] one name
  have 1: "play_round ?one (typing []) =
      Inr (False, ?one, print (Solved ''Roger Federer'' 25) (typing []))" by simp
  from play_round_terminal_checks [where g = "game_on []" and c = "typing []"] none
  have 2: "play_round (game_on []) (typing []) = Inr (False, game_on [], print NoMatch (typing []))"
    by blast
  from play_round_terminal_checks [where g = ?spent and c = "typing []"] spent names
  have 3: "play_round ?spent (typing []) =
      Inr (False, ?spent,
           print (OutOfQuestions [''Roger Federer'', ''Rafael Nadal'', ''Serena Williams''])
             (typing []))" by metis
  from play_round_terminal_checks [where g = ?six and c = "typing [''y'']"] six quiet
  have 4: "play_round ?six (typing [''y'']) =
      Inr (True, ?six, print (round_header ?six) (typing [''y'']))" by blast
  from play_round_terminal_checks [where g = ?three and c = "typing [''n'']"] three loud
  have "play_round ?three (typing [''n'']) = Inl EOFError
      \<or> (\<exists>g1 c1 q es. play_round ?three (typing [''n'']) = Inr (True, g1, c1)
            \<and> first_question ?three q
            \<and> stdout c1 = stdout (typing [''n'']) @ round_header ?three # Prompt q # es
            \<and> questions_asked g1 \<ge> questions_asked ?three + 1)"
    by blast
  with ok obtain g1 c1 q es where
    a: "play_round ?three (typing [''n'']) = Inr (True, g1, c1)" and
    b: "first_question ?three q" and
    c: "stdout c1 = stdout (typing [''n'']) @ round_header ?three # Prompt q # es" and
    d: "questions_asked g1 \<ge> questions_asked ?three + 1" by auto
  from b first have q: "q = AskAge" by simp
  have zero: "questions_asked ?three = 0"
    by (simp add: game_on_def start_new_game_def load_people_def init_game_def)
  from a c d q hdr out zero
  have 5: "\<exists>g1 c1 es. play_round ?three (typing [''n'']) = Inr (True, g1, c1)
      \<and> stdout c1 = RoundHeader 1 20 3 # Prompt AskAge # es
      \<and> questions_asked g1 \<ge> 1"
    by auto
  from 1 2 3 quiet 4 loud 5 show ?thesis by blast
qed

section \<open>Persons\<close>

lemma as_many_capitals:
  "length (ascii_lowercase @ latin1_lowercase) = length (ascii_uppercase @ latin1_uppercase)"
  by (simp add: ascii_lowercase_def ascii_uppercase_def latin1_lowercase_def
      latin1_uppercase_def)

lemma capitals_not_lower:
  "set (ascii_uppercase @ latin1_uppercase) \<inter> set (ascii_lowercase @ latin1_lowercase) = {}"
  by (simp add: ascii_lowercase_def ascii_uppercase_def latin1_lowercase_def
      latin1_uppercase_def)

lemma sharp_s_not_capital: "CHR 0xDF \<notin> set (ascii_uppercase @ latin1_uppercase)"
  by (simp add: ascii_uppercase_def latin1_uppercase_def)

lemma upper_char_cases:
  obtains (sharp_s) "ch = CHR 0xDF" "upper_char ch = ''SS''"
  | (letter) u where "u \<in> set (ascii_uppercase @ latin1_uppercase)" "upper_char ch = [u]"
  | (other) "ch \<notin> set (ascii_lowercase @ latin1_lowercase)" "upper_char ch = [ch]"
proof (cases "ch = CHR 0xDF")
  case True
  then show ?thesis by (simp add: upper_char_def sharp_s)
next
  case False
  show ?thesis
  proof (cases "map_of (zip (ascii_lowercase @ latin1_lowercase)
      (ascii_uppercase @ latin1_uppercase)) ch")
    case None
    then have "ch \<notin> set (ascii_lowercase @ latin1_lowercase)"
      unfolding map_of_zip_is_None [OF as_many_capitals] .
    with None False show ?thesis by (simp add: upper_char_def other)
  next
    case (Some u)
    then have "u \<in> set (ascii_uppercase @ latin1_uppercase)"
      by (blast dest: map_of_SomeD set_zip_rightD)
    with Some False show ?thesis by (simp add: upper_char_def letter)
  qed
qed

lemma upper_char_capital:
  assumes "u \<in> set (ascii_uppercase @ latin1_uppercase)"
  shows "upper_char u = [u]"
proof -
  from assms capitals_not_lower have "u \<notin> set (ascii_lowercase @ latin1_lowercase)" by blast
  then have "map_of (zip (ascii_lowercase @ latin1_lowercase)
      (ascii_uppercase @ latin1_uppercase)) u = None"
    unfolding map_of_zip_is_None [OF as_many_capitals] .
  moreover from assms sharp_s_not_capital have "u \<noteq> CHR 0xDF" by blast
  ultimately show ?thesis by (simp add: upper_char_def)
qed

lemma upper_upper_char: "upper (upper_char ch) = upper_char ch"
proof (cases ch rule: upper_char_cases)
  case sharp_s
  have "upper_char CHR ''S'' = ''S''"
    by (rule upper_char_capital) (simp add: ascii_uppercase_def)
  with sharp_s show ?thesis by (simp add: upper_def)
next
  case (letter u)
  then show ?thesis by (simp add: upper_def upper_char_capital)
next
  case other
  then show ?thesis by (simp add: upper_def)
qed

lemma upper_idem: "upper (upper x) = upper x"
  by (induction x) (simp_all add: upper_def upper_upper_char [unfolded upper_def])

lemma upper_char_not_lower: "set (upper_char ch) \<inter> set ascii_lowercase = {}"
proof (cases ch rule: upper_char_cases)
  case sharp_s
  then show ?thesis by (simp add: ascii_lowercase_def)
next
  case (letter u)
  with capitals_not_lower show ?thesis by auto
next
  case other
  then show ?thesis by auto
qed

lemma upper_not_lower: "set (upper x) \<inter> set ascii_lowercase = {}"
  using upper_char_not_lower by (auto simp: upper_def)

lemma new_Person_fields:
  "gender (new_Person s n gd a occ ind natn) = upper gd"
  "industry (new_Person s n gd a occ ind natn) = upper ind"
  "sno (new_Person s n gd a occ ind natn) = s"
  "name (new_Person s n gd a occ ind natn) = n"
  "age (new_Person s n gd a occ ind natn) = a"
  "occupation (new_Person s n gd a occ ind natn) = occ"
  "nationality (new_Person s n gd a occ ind natn) = natn"
  by (simp_all add: new_Person_def post_init_def upper_def)

text \<open>
  C5 as the specification words it makes \<open>gender\<close>, \<open>industry\<close> and \<open>age\<close> range over fixed
  values. Nothing checks that: a row with gender \<open>X\<close>, industry \<open>MAGIC\<close> and age \<open>-5\<close>
  loads into a Person with these very values, and becomes a candidate.
\<close>

theorem person_values_not_checked:
  "gender (from_tuple wizard) = ''X''
   \<and> gender (from_tuple wizard) \<notin> set [''M'', ''F'']
   \<and> industry (from_tuple wizard) = ''MAGIC''
   \<and> industry (from_tuple wizard)
        \<notin> set [''SPORTS'', ''POLITICS'', ''SCIENCE'', ''MUSIC'', ''FILM'', ''BUSINESS'']
   \<and> \<not> age (from_tuple wizard) \<ge> 0
   \<and> remaining_people (game_on [wizard]) = [from_tuple wizard]"
  by code_simp

text \<open>
  C5, as the code has it. The constructor stores the upper-cased gender and industry and
  the other five fields as given; upper-casing leaves no lower-case letter and is the
  identity on its own results. A new game holds the Persons built from the rows, in
  their order, and a round, or any number of rounds, leaves the catalogue as it is and
  keeps as candidates only Persons that were candidates before, field for field.
\<close>

theorem person_normalized_and_kept:
  "gender (new_Person s n gd a occ ind natn) = upper gd
   \<and> industry (new_Person s n gd a occ ind natn) = upper ind
   \<and> sno (new_Person s n gd a occ ind natn) = s
   \<and> name (new_Person s n gd a occ ind natn) = n
   \<and> age (new_Person s n gd a occ ind natn) = a
   \<and> occupation (new_Person s n gd a occ ind natn) = occ
   \<and> nationality (new_Person s n gd a occ ind natn) = natn
   \<and> upper (upper x) = upper x
   \<and> set (upper x) \<inter> set ascii_lowercase = {}
   \<and> people (game_on rows) = map from_tuple rows
   \<and> remaining_people (game_on rows) = map from_tuple rows
   \<and> (play_round g c = Inr (b, g1, c1) \<longrightarrow>
        people g1 = people g \<and> set (remaining_people g1) \<subseteq> set (remaining_people g))
   \<and> (play_rounds k g c = Some (Inr (g2, c2)) \<longrightarrow>
        people g2 = people g \<and> set (remaining_people g2) \<subseteq> set (remaining_people g))"
proof -
  have "upper (upper x) = upper x" by (rule upper_idem)
  moreover have "set (upper x) \<inter> set ascii_lowercase = {}" by (rule upper_not_lower)
  moreover have "people (game_on rows) = map from_tuple rows"
    and "remaining_people (game_on rows) = map from_tuple rows"
    by (simp_all add: game_on_def start_new_game_def load_people_def init_game_def)
  moreover have "people g1 = people g \<and> set (remaining_people g1) \<subseteq> set (remaining_people g)"
    if "play_round g c = Inr (b, g1, c1)"
    using play_round_advanced [OF that] by (auto simp: advanced_def dest: set_mono_sublist
        list_emb_set)
  moreover have "people g2 = people g \<and> set (remaining_people g2) \<subseteq> set (remaining_people g)"
    if "play_rounds k g c = Some (Inr (g2, c2))"
    using play_rounds_advanced [OF that] by (auto simp: advanced_def dest: list_emb_set)
  ultimately show ?thesis by (simp add: new_Person_fields)
qed

theorem person_normalized_and_kept_witness:
  "gender (new_Person 3 ''Roger Federer'' ''m'' 42 ''Tennis'' ''Sports'' ''Switzerland'') = ''M''
   \<and> industry (new_Person 3 ''Roger Federer'' ''m'' 42 ''Tennis'' ''Sports'' ''Switzerland'')
       = ''SPORTS''
   \<and> (\<exists>b g1 c1. play_round (game_on three_players) (typing [''n'']) = Inr (b, g1, c1)
        \<and> people g1 = map from_tuple three_players
        \<and> set (remaining_people g1) \<subseteq> set (map from_tuple three_players))"
proof -
  let ?g = "game_on three_players" and ?c = "typing [''n'']"
  have m: "upper ''m'' = ''M''" and s: "upper ''Sports'' = ''SPORTS''" by code_simp+
  have "\<not> isl (play_round ?g ?c)" by code_simp
  then obtain b g1 c1 where 1: "play_round ?g ?c = Inr (b, g1, c1)"
    by (cases "play_round ?g ?c") auto
  note T = person_normalized_and_kept [where s = 3 and n = "''Roger Federer''" and gd = "''m''"
      and a = 42 and occ = "''Tennis''" and ind = "''Sports''" and natn = "''Switzerland''"
      and rows = three_players and g = ?g and c = ?c and b = b and ?g1.0 = g1 and ?c1.0 = c1]
  from T m have 2:
    "gender (new_Person 3 ''Roger Federer'' ''m'' 42 ''Tennis'' ''Sports'' ''Switzerland'') = ''M''"
    by simp
  from T s have 3:
    "industry (new_Person 3 ''Roger Federer'' ''m'' 42 ''Tennis'' ''Sports'' ''Switzerland'')
       = ''SPORTS''"
    by simp
  from T have 4: "people ?g = map from_tuple three_players"
    and 5: "remaining_people ?g = map from_tuple three_players" by blast+
  from T 1 have "people g1 = people ?g \<and> set (remaining_people g1) \<subseteq> set (remaining_people ?g)"
    by blast
  then have 6: "people g1 = map from_tuple three_players
      \<and> set (remaining_people g1) \<subseteq> set (map from_tuple three_players)"
    unfolding 4 5 .
  from 1 2 3 6 show ?thesis by blast
qed

section \<open>The budget\<close>

lemma counter_starts_at_zero:
  "questions_asked (fst (snd (start_new_game (Some rows) g c))) = 0"
  by (simp add: start_new_game_def load_people_def)

lemma two_candidates_never_end:
  assumes "length (remaining_people g) = 2" and "questions_asked g < max_questions g"
  shows "play_rounds n g c = None"
proof (induction n arbitrary: c)
  case 0
  show ?case by simp
next
  case (Suc n)
  from round_two [OF assms] Suc.IH show ?case by simp
qed

text \<open>
  C1 fails on the code in two ways. With two candidates left a round asks nothing and
  reports that the game goes on, so the loop over the rounds never returns, whatever
  the number of rounds allowed and whatever is typed. And the budget is compared
  with the counter only at the start of a round, while a round in the 11 to 20 tier
  puts two or three questions: for eleven chess players and a tennis player the
  counter is 19 at the start of the tenth round, and the session ends at the eleventh
  with 21 questions answered, the budget being 20.
\<close>

theorem budget_overrun_and_endless_session:
  "(\<forall>n c. play_rounds n (game_on [federer, nadal]) c = None)
   \<and> (case play_rounds 11 (game_on mixed_club) (typing mixed_club_answers) of
        Some (Inr (g', c')) \<Rightarrow>
          questions_asked g' = 21 \<and> max_questions g' = 20
          \<and> length (remaining_people g') = 11 \<and> stdin c' = []
          \<and> length (filter_list (\<lambda>e. case e of Prompt q \<Rightarrow> True | _ \<Rightarrow> False) (stdout c')) = 21
      | _ \<Rightarrow> False)"
proof
  have "length (remaining_people (game_on [federer, nadal])) = 2"
    and "questions_asked (game_on [federer, nadal]) < max_questions (game_on [federer, nadal])"
    by (simp_all add: game_on_def start_new_game_def load_people_def init_game_def)
  then show "\<forall>n c. play_rounds n (game_on [federer, nadal]) c = None"
    by (blast intro: two_candidates_never_end)
next
  show "case play_rounds 11 (game_on mixed_club) (typing mixed_club_answers) of
        Some (Inr (g', c')) \<Rightarrow>
          questions_asked g' = 21 \<and> max_questions g' = 20
          \<and> length (remaining_people g') = 11 \<and> stdin c' = []
          \<and> length (filter_list (\<lambda>e. case e of Prompt q \<Rightarrow> True | _ \<Rightarrow> False) (stdout c')) = 21
      | _ \<Rightarrow> False"
    by code_simp
qed

end
